theory Spec2Isabelle
  imports Main
begin

section \<open>Data model\<close>

text \<open>
  A compiler symbol (\<open>ts.Symbol\<close>) is an object compared by identity; the only field the
  plugin reads is \<open>name\<close>.  The first component stands for the identity, so two symbols
  may carry the same name and still be different.
\<close>

datatype symbol = Symbol (symbolId: nat) (symbolName: string)

text \<open>
  \<open>ReflectionKind\<close>: every kind is a single bit, and \<open>kindOf\<close> of a single kind is an
  equality test.
\<close>

datatype reflectionKind =
    KProject | KModule | KNamespace | KEnum | KVariable | KFunction | KClass
  | KInterface | KProperty | KMethod | KCallSignature | KParameter | KTypeLiteral
  | KTypeParameter | KTypeAlias

text \<open>
  The target of a reference type is either a compiler symbol or the numeric id of a
  reflection (a reference that points at nothing has a numeric target owned by no
  reflection).
\<close>

datatype target = TargetSymbol symbol | TargetId int

text \<open>
  Type values and reflections.  Of the type variants only two matter: a reference
  (target and type arguments) and an inline reflection (the wrapped declaration).  The
  shapes a recursive visitor merely descends through (arrays, unions, tuples, ...) are
  \<open>CompositeType\<close>, the ones without components (intrinsic, literal, unknown) are
  \<open>IntrinsicType\<close>.

  The constructors of \<open>reflection\<close> are the classes that \<open>discoverMissingExports\<close>
  tells apart with \<open>instanceof\<close>.  An optional array field is a list (absent and empty
  are read alike everywhere), an optional single field is an option.
\<close>

datatype someType =
    ReferenceType target "someType list"
  | ReflectionType reflection
  | CompositeType "someType list"
  | IntrinsicType
and reflection =
    ProjectReflection int string
      "reflection list"   \<comment> \<open>children\<close>
  | DeclarationReflection int reflectionKind string
      "reflection list"   \<comment> \<open>children\<close>
      "someType option"   \<comment> \<open>type\<close>
      "reflection list"   \<comment> \<open>typeParameters\<close>
      "reflection list"   \<comment> \<open>signatures\<close>
      "reflection option" \<comment> \<open>indexSignature\<close>
      "reflection option" \<comment> \<open>getSignature\<close>
      "reflection option" \<comment> \<open>setSignature\<close>
      "someType option"   \<comment> \<open>overwrites\<close>
      "someType option"   \<comment> \<open>inheritedFrom\<close>
      "someType option"   \<comment> \<open>implementationOf\<close>
      "someType list"     \<comment> \<open>extendedTypes\<close>
      "someType list"     \<comment> \<open>implementedTypes\<close>
  | SignatureReflection int reflectionKind string
      "reflection list"   \<comment> \<open>parameters\<close>
      "reflection list"   \<comment> \<open>typeParameters\<close>
      "someType option"   \<comment> \<open>type\<close>
      "someType option"   \<comment> \<open>overwrites\<close>
      "someType option"   \<comment> \<open>inheritedFrom\<close>
      "someType option"   \<comment> \<open>implementationOf\<close>
  | ParameterReflection int reflectionKind string
      "someType option"   \<comment> \<open>type\<close>
  | TypeParameterReflection int reflectionKind string
      "someType option"   \<comment> \<open>type\<close>
      "someType option"   \<comment> \<open>default\<close>

fun rid :: "reflection \<Rightarrow> int" where
  "rid (ProjectReflection i n ch) = i"
| "rid (DeclarationReflection i k n ch ty tps sigs ix gs ss ow inh impl ext imps) = i"
| "rid (SignatureReflection i k n ps tps ty ow inh impl) = i"
| "rid (ParameterReflection i k n ty) = i"
| "rid (TypeParameterReflection i k n ty df) = i"

fun kind :: "reflection \<Rightarrow> reflectionKind" where
  "kind (ProjectReflection i n ch) = KProject"
| "kind (DeclarationReflection i k n ch ty tps sigs ix gs ss ow inh impl ext imps) = k"
| "kind (SignatureReflection i k n ps tps ty ow inh impl) = k"
| "kind (ParameterReflection i k n ty) = k"
| "kind (TypeParameterReflection i k n ty df) = k"

fun rname :: "reflection \<Rightarrow> string" where
  "rname (ProjectReflection i n ch) = n"
| "rname (DeclarationReflection i k n ch ty tps sigs ix gs ss ow inh impl ext imps) = n"
| "rname (SignatureReflection i k n ps tps ty ow inh impl) = n"
| "rname (ParameterReflection i k n ty) = n"
| "rname (TypeParameterReflection i k n ty df) = n"

text \<open>\<open>children\<close> of a container reflection; other reflections have none.\<close>

fun children :: "reflection \<Rightarrow> reflection list" where
  "children (ProjectReflection i n ch) = ch"
| "children (DeclarationReflection i k n ch ty tps sigs ix gs ss ow inh impl ext imps) = ch"
| "children _ = []"

section \<open>The reference collector\<close>

text \<open>
  A JavaScript \<open>Set\<close> keeps its elements in insertion order and \<open>add\<close> of a member is
  a no-op; the driver iterates over the set, so the order is kept.
\<close>

definition setAdd :: "'a \<Rightarrow> 'a list \<Rightarrow> 'a list" where
  "setAdd x xs = (if x \<in> set xs then xs else xs @ [x])"

text \<open>\<open>ReferenceType.getSymbol()\<close>: the target when it is a symbol.\<close>

fun getSymbol :: "target \<Rightarrow> symbol option" where
  "getSymbol (TargetSymbol s) = Some s"
| "getSymbol (TargetId i) = None"

text \<open>The two accumulators of \<open>discoverMissingExports\<close>: \<open>missing\<close> and \<open>queue\<close>.\<close>

type_synonym acc = "symbol list \<times> reflection list"

text \<open>
  \<open>makeRecursiveVisitor\<close> with the two callbacks of the plugin.  The first argument
  answers \<open>type.reflection\<close> for a reference type (whether the reference is resolved).
  The recursive visitor calls the callback on a reference and then descends into its
  type arguments; on an inline reflection it calls the callback only.
\<close>

fun visitor :: "(target \<Rightarrow> bool) \<Rightarrow> someType \<Rightarrow> acc \<Rightarrow> acc" where
  "visitor resolved (ReferenceType tgt args) (missing, queue) =
     fold (visitor resolved) args
       (if \<not> resolved tgt then
          (case getSymbol tgt of
             Some s \<Rightarrow> (setAdd s missing, queue)
           | None \<Rightarrow> (missing, queue))
        else (missing, queue))"
| "visitor resolved (ReflectionType d) (missing, queue) = (missing, queue @ [d])"
| "visitor resolved (CompositeType ts) a = fold (visitor resolved) ts a"
| "visitor resolved IntrinsicType a = a"

text \<open>\<open>x?.visit(visitor)\<close> on an optional type, and \<open>xs?.forEach(t => t.visit(visitor))\<close>.\<close>

fun visitOpt :: "(target \<Rightarrow> bool) \<Rightarrow> someType option \<Rightarrow> acc \<Rightarrow> acc" where
  "visitOpt resolved None a = a"
| "visitOpt resolved (Some t) a = visitor resolved t a"

definition visitAll :: "(target \<Rightarrow> bool) \<Rightarrow> someType list \<Rightarrow> acc \<Rightarrow> acc" where
  "visitAll resolved ts a = fold (visitor resolved) ts a"

text \<open>\<open>add\<close>: push an array of reflections, one reflection, or nothing.\<close>

fun add :: "reflection list \<Rightarrow> acc \<Rightarrow> acc" where
  "add items (missing, queue) = (missing, queue @ items)"

fun addOpt :: "reflection option \<Rightarrow> acc \<Rightarrow> acc" where
  "addOpt None a = a"
| "addOpt (Some item) (missing, queue) = (missing, queue @ [item])"

text \<open>One pass of the body of the \<open>do ... while\<close> loop, for the reflection \<open>current\<close>.\<close>

fun visitCurrent :: "(target \<Rightarrow> bool) \<Rightarrow> reflection \<Rightarrow> acc \<Rightarrow> acc" where
  "visitCurrent resolved (ProjectReflection i n ch) a = add ch a"
| "visitCurrent resolved
     (DeclarationReflection i k n ch ty tps sigs ix gs ss ow inh impl ext imps) a =
     (let a = add ch a;
          a = visitOpt resolved ty a;
          a = add tps a;
          a = add sigs a;
          a = addOpt ix a;
          a = addOpt gs a;
          a = addOpt ss a;
          a = visitOpt resolved ow a;
          a = visitOpt resolved inh a;
          a = visitOpt resolved impl a;
          a = visitAll resolved ext a;
          a = visitAll resolved imps a
      in a)"
| "visitCurrent resolved (SignatureReflection i k n ps tps ty ow inh impl) a =
     (let a = add ps a;
          a = add tps a;
          a = visitOpt resolved ty a;
          a = visitOpt resolved ow a;
          a = visitOpt resolved inh a;
          a = visitOpt resolved impl a
      in a)"
| "visitCurrent resolved (ParameterReflection i k n ty) a = visitOpt resolved ty a"
| "visitCurrent resolved (TypeParameterReflection i k n ty df) a =
     (let a = visitOpt resolved ty a;
          a = visitOpt resolved df a
      in a)"

text \<open>The queue only ever receives reflections nested in the current one.\<close>

lemma fold_queue_size:
  assumes "\<And>t a. t \<in> set ts \<Longrightarrow>
    size_list size (snd (f t a)) \<le> size t + size_list size (snd a)"
  shows "size_list size (snd (fold f ts a)) \<le> size_list size ts + size_list size (snd a)"
  using assms
proof (induction ts arbitrary: a)
  case Nil
  then show ?case by simp
next
  case (Cons x xs)
  have "size_list size (snd (fold f xs (f x a))) \<le> size_list size xs + size_list size (snd (f x a))"
    using Cons.IH Cons.prems by simp
  moreover have "size_list size (snd (f x a)) \<le> size x + size_list size (snd a)"
    using Cons.prems by simp
  ultimately show ?case by simp
qed

lemma visitor_queue_size:
  "size_list size (snd (visitor resolved t a)) \<le> size t + size_list size (snd a)"
proof (induction resolved t a rule: visitor.induct)
  case (1 resolved tgt args missing queue)
  let ?a = "(if \<not> resolved tgt then
          (case getSymbol tgt of
             Some s \<Rightarrow> (setAdd s missing, queue)
           | None \<Rightarrow> (missing, queue))
        else (missing, queue))"
  have q: "snd ?a = queue" by (simp split: option.splits)
  have "size_list size (snd (fold (visitor resolved) args ?a))
      \<le> size_list size args + size_list size (snd ?a)"
    by (rule fold_queue_size) (rule 1)
  then show ?case by (simp add: q)
next
  case (2 resolved d missing queue)
  then show ?case by simp
next
  case (3 resolved ts a)
  have "size_list size (snd (fold (visitor resolved) ts a))
      \<le> size_list size ts + size_list size (snd a)"
    by (rule fold_queue_size) (rule 3)
  then show ?case by simp
next
  case (4 resolved a)
  then show ?case by simp
qed

lemma visitOpt_queue_mono:
  "size_list size (snd a) \<le> n \<Longrightarrow>
   size_list size (snd (visitOpt resolved t a)) \<le> size_option size t + n"
proof -
  assume n: "size_list size (snd a) \<le> n"
  show ?thesis
  proof (cases t)
    case None
    with n show ?thesis by simp
  next
    case (Some u)
    with n visitor_queue_size [of resolved u a] show ?thesis by simp
  qed
qed

lemma visitAll_queue_mono:
  "size_list size (snd a) \<le> n \<Longrightarrow>
   size_list size (snd (visitAll resolved ts a)) \<le> size_list size ts + n"
  unfolding visitAll_def
  using fold_queue_size [of ts "visitor resolved" a, OF visitor_queue_size] by simp

lemma add_queue_mono:
  "size_list size (snd a) \<le> n \<Longrightarrow>
   size_list size (snd (add items a)) \<le> size_list size items + n"
  by (cases a) simp

lemma addOpt_queue_mono:
  "size_list size (snd a) \<le> n \<Longrightarrow>
   size_list size (snd (addOpt item a)) \<le> size_option size item + n"
  by (cases a; cases item) simp_all

lemmas queue_mono =
  visitOpt_queue_mono visitAll_queue_mono add_queue_mono addOpt_queue_mono

lemma visitCurrent_queue_size:
  "size_list size (snd (visitCurrent resolved c a)) < size c + size_list size (snd a)"
proof (cases c)
  case (ProjectReflection i n ch)
  have "size_list size (snd (visitCurrent resolved c a))
      \<le> size_list size ch + size_list size (snd a)"
    unfolding ProjectReflection visitCurrent.simps by (intro queue_mono order_refl)
  then show ?thesis by (simp add: ProjectReflection)
next
  case (DeclarationReflection i k n ch ty tps sigs ix gs ss ow inh impl ext imps)
  have "size_list size (snd (visitCurrent resolved c a))
      \<le> size_list size imps + (size_list size ext + (size_option size impl +
         (size_option size inh + (size_option size ow + (size_option size ss +
         (size_option size gs + (size_option size ix + (size_list size sigs +
         (size_list size tps + (size_option size ty + (size_list size ch +
          size_list size (snd a))))))))))))"
    unfolding DeclarationReflection visitCurrent.simps Let_def
    by (intro queue_mono order_refl)
  then show ?thesis by (simp add: DeclarationReflection)
next
  case (SignatureReflection i k n ps tps ty ow inh impl)
  have "size_list size (snd (visitCurrent resolved c a))
      \<le> size_option size impl + (size_option size inh + (size_option size ow +
         (size_option size ty + (size_list size tps + (size_list size ps +
          size_list size (snd a))))))"
    unfolding SignatureReflection visitCurrent.simps Let_def
    by (intro queue_mono order_refl)
  then show ?thesis by (simp add: SignatureReflection)
next
  case (ParameterReflection i k n ty)
  have "size_list size (snd (visitCurrent resolved c a))
      \<le> size_option size ty + size_list size (snd a)"
    unfolding ParameterReflection visitCurrent.simps by (intro queue_mono order_refl)
  then show ?thesis by (simp add: ParameterReflection)
next
  case (TypeParameterReflection i k n ty df)
  have "size_list size (snd (visitCurrent resolved c a))
      \<le> size_option size df + (size_option size ty + size_list size (snd a))"
    unfolding TypeParameterReflection visitCurrent.simps Let_def
    by (intro queue_mono order_refl)
  then show ?thesis by (simp add: TypeParameterReflection)
qed

text \<open>
  The \<open>do ... while ((current = queue.shift()))\<close> loop: the accumulators after the
  body, then the next reflection from the front of the queue, until the queue is empty.
\<close>

function traverse :: "(target \<Rightarrow> bool) \<Rightarrow> reflection \<Rightarrow> acc \<Rightarrow> symbol list" where
  "traverse resolved current a =
     (case visitCurrent resolved current a of
        (missing, []) \<Rightarrow> missing
      | (missing, next # queue) \<Rightarrow> traverse resolved next (missing, queue))"
  by pat_completeness auto

termination
proof (relation "measure (\<lambda>(resolved, current, a). size current + size_list size (snd a))",
    goal_cases)
  case 1
  show ?case by simp
next
  case (2 resolved current a missing queue nxt rest)
  from 2 have "snd (visitCurrent resolved current a) = nxt # rest" by (metis snd_conv)
  with visitCurrent_queue_size [of resolved current a] show ?case by simp
qed

declare traverse.simps [simp del]

definition discoverMissingExports :: "(target \<Rightarrow> bool) \<Rightarrow> reflection \<Rightarrow> symbol list" where
  "discoverMissingExports resolved root = traverse resolved root ([], [])"

section \<open>What the collector is meant to compute\<close>

text \<open>
  The declarations wrapped by the inline-reflection types inside a type value, and the
  targets of the reference types inside it (the type itself, type arguments and
  components of composite types; not what lies inside a wrapped declaration).
\<close>

fun inlineDeclarations :: "someType \<Rightarrow> reflection list" where
  "inlineDeclarations (ReferenceType tgt args) = concat (map inlineDeclarations args)"
| "inlineDeclarations (ReflectionType d) = [d]"
| "inlineDeclarations (CompositeType ts) = concat (map inlineDeclarations ts)"
| "inlineDeclarations IntrinsicType = []"

fun referenceTargets :: "someType \<Rightarrow> target list" where
  "referenceTargets (ReferenceType tgt args) = tgt # concat (map referenceTargets args)"
| "referenceTargets (ReflectionType d) = []"
| "referenceTargets (CompositeType ts) = concat (map referenceTargets ts)"
| "referenceTargets IntrinsicType = []"

text \<open>An optional field as the list of what it holds.\<close>

fun optional :: "'a option \<Rightarrow> 'a list" where
  "optional None = []"
| "optional (Some x) = [x]"

text \<open>The traversed fields of a reflection: those holding types, those holding reflections.\<close>

fun traversedTypes :: "reflection \<Rightarrow> someType list" where
  "traversedTypes (ProjectReflection i n ch) = []"
| "traversedTypes (DeclarationReflection i k n ch ty tps sigs ix gs ss ow inh impl ext imps) =
     optional ty @ optional ow @ optional inh @ optional impl @ ext @ imps"
| "traversedTypes (SignatureReflection i k n ps tps ty ow inh impl) =
     optional ty @ optional ow @ optional inh @ optional impl"
| "traversedTypes (ParameterReflection i k n ty) =
     optional ty"
| "traversedTypes (TypeParameterReflection i k n ty df) =
     optional ty @ optional df"

fun traversedReflections :: "reflection \<Rightarrow> reflection list" where
  "traversedReflections (ProjectReflection i n ch) = ch"
| "traversedReflections
     (DeclarationReflection i k n ch ty tps sigs ix gs ss ow inh impl ext imps) =
     ch @ tps @ sigs @ optional ix @ optional gs @ optional ss"
| "traversedReflections (SignatureReflection i k n ps tps ty ow inh impl) = ps @ tps"
| "traversedReflections (ParameterReflection i k n ty) = []"
| "traversedReflections (TypeParameterReflection i k n ty df) = []"

definition successors :: "reflection \<Rightarrow> reflection list" where
  "successors r = traversedReflections r @ concat (map inlineDeclarations (traversedTypes r))"

lemma inlineDeclarations_size:
  "d \<in> set (inlineDeclarations t) \<Longrightarrow> size d < size t"
proof (induction t rule: inlineDeclarations.induct)
  case (1 tgt args)
  then obtain x where x: "x \<in> set args" "d \<in> set (inlineDeclarations x)" by auto
  with 1 have "size d < size x" by blast
  with x(1) have "size d < size_list size args" by (rule size_list_estimation)
  then show ?case by simp
next
  case (2 d')
  then show ?case by simp
next
  case (3 ts)
  then obtain x where x: "x \<in> set ts" "d \<in> set (inlineDeclarations x)" by auto
  with 3 have "size d < size x" by blast
  with x(1) have "size d < size_list size ts" by (rule size_list_estimation)
  then show ?case by simp
next
  case 4
  then show ?case by simp
qed

lemma optional_size: "x \<in> set (optional y) \<Longrightarrow> size x < Suc (size_option size y)"
  by (cases y) auto

lemma size_list_member: "x \<in> set xs \<Longrightarrow> size x < Suc (size_list size xs)"
  by (simp add: less_Suc_eq_le size_list_estimation')

lemma traversedTypes_size: "t \<in> set (traversedTypes r) \<Longrightarrow> size t < size r"
  by (cases r) (auto dest: size_list_member optional_size)

lemma traversedReflections_size: "r' \<in> set (traversedReflections r) \<Longrightarrow> size r' < size r"
  by (cases r) (auto dest: size_list_member optional_size)

lemma successors_size: "r' \<in> set (successors r) \<Longrightarrow> size r' < size r"
  unfolding successors_def
  by (auto dest: traversedReflections_size
      intro: less_trans [OF inlineDeclarations_size traversedTypes_size])

text \<open>Every reflection reachable from a root through the traversed fields, the root first.\<close>

function reachable :: "reflection \<Rightarrow> reflection list" where
  "reachable r = r # concat (map reachable (successors r))"
  by pat_completeness auto

termination
  by (relation "measure size") (auto dest: successors_size)

declare reachable.simps [simp del]

text \<open>
  The symbols the collector is to report for a root: those carried as target by a
  reference type in a traversed field of a reachable reflection and whose reference has
  no resolved reflection.
\<close>

definition missingSymbols :: "(target \<Rightarrow> bool) \<Rightarrow> reflection \<Rightarrow> symbol set" where
  "missingSymbols resolved root =
     {s. \<exists>r \<in> set (reachable root). \<exists>t \<in> set (traversedTypes r).
           TargetSymbol s \<in> set (referenceTargets t) \<and> \<not> resolved (TargetSymbol s)}"

section \<open>The collector computes the missing symbols\<close>

lemma set_setAdd [simp]: "set (setAdd x xs) = insert x (set xs)"
  by (auto simp: setAdd_def)

lemma fold_visitor_acc:
  assumes "\<And>t a. t \<in> set ts \<Longrightarrow>
    set (fst (f t a)) = set (fst a) \<union> M t \<and> set (snd (f t a)) = set (snd a) \<union> Q t"
  shows "set (fst (fold f ts a)) = set (fst a) \<union> (\<Union>t \<in> set ts. M t)
       \<and> set (snd (fold f ts a)) = set (snd a) \<union> (\<Union>t \<in> set ts. Q t)"
  using assms
proof (induction ts arbitrary: a)
  case Nil
  then show ?case by simp
next
  case (Cons x xs)
  have step: "set (fst (f x a)) = set (fst a) \<union> M x \<and> set (snd (f x a)) = set (snd a) \<union> Q x"
    using Cons.prems by simp
  have rest: "set (fst (fold f xs (f x a))) = set (fst (f x a)) \<union> (\<Union>t \<in> set xs. M t)
       \<and> set (snd (fold f xs (f x a))) = set (snd (f x a)) \<union> (\<Union>t \<in> set xs. Q t)"
    using Cons.IH Cons.prems by simp
  show ?case using step rest by auto
qed

text \<open>The symbols a single type value contributes.\<close>

definition unresolvedSymbols :: "(target \<Rightarrow> bool) \<Rightarrow> someType \<Rightarrow> symbol set" where
  "unresolvedSymbols resolved t =
     {s. TargetSymbol s \<in> set (referenceTargets t) \<and> \<not> resolved (TargetSymbol s)}"

lemma unresolvedSymbols_simps [simp]:
  "unresolvedSymbols resolved (ReferenceType tgt args) =
     (case tgt of TargetSymbol s \<Rightarrow> if resolved tgt then {} else {s} | TargetId i \<Rightarrow> {})
     \<union> (\<Union>t \<in> set args. unresolvedSymbols resolved t)"
  "unresolvedSymbols resolved (ReflectionType d) = {}"
  "unresolvedSymbols resolved (CompositeType ts) = (\<Union>t \<in> set ts. unresolvedSymbols resolved t)"
  "unresolvedSymbols resolved IntrinsicType = {}"
  by (auto simp: unresolvedSymbols_def split: target.splits)

lemma visitor_acc:
  "set (fst (visitor resolved t a)) = set (fst a) \<union> unresolvedSymbols resolved t
   \<and> set (snd (visitor resolved t a)) = set (snd a) \<union> set (inlineDeclarations t)"
proof (induction resolved t a rule: visitor.induct)
  case (1 resolved tgt args missing queue)
  let ?a = "(if \<not> resolved tgt then
          (case getSymbol tgt of
             Some s \<Rightarrow> (setAdd s missing, queue)
           | None \<Rightarrow> (missing, queue))
        else (missing, queue))"
  have a: "set (fst ?a) = set missing \<union>
      (case tgt of TargetSymbol s \<Rightarrow> if resolved tgt then {} else {s} | TargetId i \<Rightarrow> {})"
    "snd ?a = queue"
    by (cases tgt; simp)+
  have "set (fst (fold (visitor resolved) args ?a))
          = set (fst ?a) \<union> (\<Union>t \<in> set args. unresolvedSymbols resolved t)
      \<and> set (snd (fold (visitor resolved) args ?a))
          = set (snd ?a) \<union> (\<Union>t \<in> set args. set (inlineDeclarations t))"
    by (rule fold_visitor_acc) (rule 1)
  then show ?case by (simp add: a Un_assoc)
next
  case (2 resolved d missing queue)
  then show ?case by simp
next
  case (3 resolved ts a)
  have "set (fst (fold (visitor resolved) ts a))
          = set (fst a) \<union> (\<Union>t \<in> set ts. unresolvedSymbols resolved t)
      \<and> set (snd (fold (visitor resolved) ts a))
          = set (snd a) \<union> (\<Union>t \<in> set ts. set (inlineDeclarations t))"
    by (rule fold_visitor_acc) (rule 3)
  then show ?case by simp
next
  case (4 resolved a)
  then show ?case by simp
qed

lemma add_acc [simp]:
  "fst (add items a) = fst a" "snd (add items a) = snd a @ items"
  by (cases a; simp)+

lemma addOpt_acc [simp]:
  "fst (addOpt item a) = fst a" "snd (addOpt item a) = snd a @ optional item"
  by (cases a; cases item; simp)+

lemma visitOpt_acc [simp]:
  "set (fst (visitOpt resolved t a))
     = set (fst a) \<union> (\<Union>u \<in> set (optional t). unresolvedSymbols resolved u)"
  "set (snd (visitOpt resolved t a))
     = set (snd a) \<union> (\<Union>u \<in> set (optional t). set (inlineDeclarations u))"
  by (cases t; simp add: visitor_acc)+

lemma visitAll_acc [simp]:
  "set (fst (visitAll resolved ts a))
     = set (fst a) \<union> (\<Union>u \<in> set ts. unresolvedSymbols resolved u)"
  "set (snd (visitAll resolved ts a))
     = set (snd a) \<union> (\<Union>u \<in> set ts. set (inlineDeclarations u))"
  unfolding visitAll_def
  using fold_visitor_acc [of ts "visitor resolved" "unresolvedSymbols resolved"
      "\<lambda>t. set (inlineDeclarations t)" a, OF visitor_acc]
  by simp_all

lemma visitCurrent_missing:
  "set (fst (visitCurrent resolved c a))
     = set (fst a) \<union> (\<Union>t \<in> set (traversedTypes c). unresolvedSymbols resolved t)"
  by (cases c) (auto simp: Let_def)

lemma visitCurrent_queue:
  "set (snd (visitCurrent resolved c a)) = set (snd a) \<union> set (successors c)"
  by (cases c) (auto simp: Let_def successors_def)

text \<open>The symbols reported for the reflections of a list, and for all they reach.\<close>

definition carried :: "(target \<Rightarrow> bool) \<Rightarrow> reflection \<Rightarrow> symbol set" where
  "carried resolved r = (\<Union>t \<in> set (traversedTypes r). unresolvedSymbols resolved t)"

lemma missingSymbols_carried:
  "missingSymbols resolved root = (\<Union>r \<in> set (reachable root). carried resolved r)"
  by (auto simp: missingSymbols_def carried_def unresolvedSymbols_def)

lemma missingSymbols_unfold:
  "missingSymbols resolved r
     = carried resolved r \<union> (\<Union>r' \<in> set (successors r). missingSymbols resolved r')"
  unfolding missingSymbols_carried by (subst reachable.simps) auto

lemma traverse_missing:
  "set (traverse resolved current a)
     = set (fst a) \<union> missingSymbols resolved current
       \<union> (\<Union>r \<in> set (snd a). missingSymbols resolved r)"
proof (induction resolved current a rule: traverse.induct)
  case (1 resolved current a)
  obtain missing queue where v: "visitCurrent resolved current a = (missing, queue)"
    by (cases "visitCurrent resolved current a")
  have m: "set missing = set (fst a) \<union> carried resolved current"
    using visitCurrent_missing [of resolved current a] by (simp add: v carried_def)
  have q: "set queue = set (snd a) \<union> set (successors current)"
    using visitCurrent_queue [of resolved current a] by (simp add: v)
  show ?case
  proof (cases queue)
    case Nil
    with q have "snd a = []" "successors current = []" by auto
    with Nil m v show ?thesis
      by (subst traverse.simps, subst missingSymbols_unfold) simp
  next
    case (Cons nxt rest)
    have "set (traverse resolved nxt (missing, rest))
        = set (fst (missing, rest)) \<union> missingSymbols resolved nxt
          \<union> (\<Union>r \<in> set (snd (missing, rest)). missingSymbols resolved r)"
      using 1 [OF v [symmetric] Cons] .
    then have "set (traverse resolved nxt (missing, rest))
        = set missing \<union> (\<Union>r \<in> set queue. missingSymbols resolved r)"
      by (auto simp: Cons)
    also have "\<dots> = set (fst a) \<union> missingSymbols resolved current
          \<union> (\<Union>r \<in> set (snd a). missingSymbols resolved r)"
      unfolding m q by (subst (2) missingSymbols_unfold) auto
    finally show ?thesis
      by (subst traverse.simps) (simp add: v Cons)
  qed
qed

lemma discoverMissingExports_set:
  "set (discoverMissingExports resolved root) = missingSymbols resolved root"
  by (simp add: discoverMissingExports_def traverse_missing)

text \<open>The loop unfolded once, for evaluation.\<close>

lemma traverse_unfold:
  "traverse isResolved current a =
     (if snd (visitCurrent isResolved current a) = [] then fst (visitCurrent isResolved current a)
      else traverse isResolved (hd (snd (visitCurrent isResolved current a)))
             (fst (visitCurrent isResolved current a), tl (snd (visitCurrent isResolved current a))))"
  by (subst traverse.simps) (simp split: prod.splits list.splits)

section \<open>The documentation project and the converter context\<close>

text \<open>A compiler program (\<open>ts.Program\<close>) is opaque.\<close>

type_synonym program = nat

text \<open>
  The calls the driver makes on the context that change the project, in order: the
  scope of the call comes first.
\<close>

datatype call =
    CreateDeclarationReflection int int
  | RegisterReflection int int symbol
  | ConvertSymbol int symbol
  | RemoveReflection int

text \<open>
  The state the driver works on: behind the \<open>Context\<close> object the project tree, the
  project's table from symbols to reflection ids, the counter that numbers new
  reflections and the active program; and the plugin's map \<open>knownPrograms\<close>, keyed by
  the id of a reflection.  Reflections are objects shared between the tree and the
  variables of the driver; the model keeps them in the tree only and refers to them by
  id.
\<close>

record ctx =
  project :: reflection
  symbolToReflectionIdMap :: "symbol \<Rightarrow> int option"
  nextId :: int
  activeProgram :: "program option"
  knownPrograms :: "int \<Rightarrow> program option"
  calls :: "call list"

record options =
  internalNamespace :: string
  noMissingExports :: bool

text \<open>
  A call either returns, or raises an exception and leaves the state as it is at that
  moment; a loop that has not finished within its bound is \<open>Unfinished\<close>.
\<close>

datatype 'a outcome = Returns 'a | Raises ctx | Unfinished

fun andThen :: "'a outcome \<Rightarrow> ('a \<Rightarrow> 'b outcome) \<Rightarrow> 'b outcome" where
  "andThen (Returns a) f = f a"
| "andThen (Raises c) f = Raises c"
| "andThen Unfinished f = Unfinished"

text \<open>
  Three functions of the documentation generator are not determined by the plugin and
  are parameters of the driver: \<open>findReflectionByName\<close> of the scope of the context
  (which is the project), the conversion of a symbol, and \<open>getHumanName\<close>, through
  which the name of a new declaration passes.  A conversion yields the reflections
  created under the scope, the symbols registered with reflection ids, in order, and the
  id counter afterwards.
\<close>

record conversion =
  created :: "reflection list"
  bound :: "(symbol \<times> int) list"
  nextFree :: int

record typedoc =
  findReflectionByName :: "reflection \<Rightarrow> string \<Rightarrow> reflection option"
  conversionOf :: "ctx \<Rightarrow> int \<Rightarrow> symbol \<Rightarrow> conversion"
  getHumanName :: "string \<Rightarrow> string"

subsection \<open>Reading the project\<close>

definition getChildrenByKind :: "reflection \<Rightarrow> reflectionKind \<Rightarrow> reflection list" where
  "getChildrenByKind r k = filter (\<lambda>c. kind c = k) (children r)"

definition childById :: "reflection \<Rightarrow> int \<Rightarrow> reflection option" where
  "childById r i = find (\<lambda>c. rid c = i) (children r)"

text \<open>A module of the driver's \<open>modules\<close> array is the project itself or one of its children.\<close>

definition moduleOf :: "reflection \<Rightarrow> int \<Rightarrow> reflection option" where
  "moduleOf p m = (if rid p = m then Some p else childById p m)"

definition namespaceOf :: "reflection \<Rightarrow> int \<Rightarrow> int \<Rightarrow> reflection option" where
  "namespaceOf p m ns = (case moduleOf p m of None \<Rightarrow> None | Some r \<Rightarrow> childById r ns)"

text \<open>
  The project's registry holds the reflections of its tree; \<open>getReflectionById\<close> reads
  it, and \<open>type.reflection\<close> of a reference type goes through the symbol table when
  the target is a symbol.
\<close>

definition getReflectionById :: "reflection \<Rightarrow> int \<Rightarrow> reflection option" where
  "getReflectionById p i = find (\<lambda>r. rid r = i) (reachable p)"

definition typeReflection :: "ctx \<Rightarrow> target \<Rightarrow> reflection option" where
  "typeReflection c tgt =
     (case tgt of
        TargetId i \<Rightarrow> getReflectionById (project c) i
      | TargetSymbol s \<Rightarrow>
          (case symbolToReflectionIdMap c s of
             None \<Rightarrow> None
           | Some i \<Rightarrow> getReflectionById (project c) i))"

definition resolved :: "ctx \<Rightarrow> target \<Rightarrow> bool" where
  "resolved c tgt = (typeReflection c tgt \<noteq> None)"

subsection \<open>Changing the project\<close>

fun setChildren :: "reflection list \<Rightarrow> reflection \<Rightarrow> reflection" where
  "setChildren ch' (ProjectReflection i n ch) = ProjectReflection i n ch'"
| "setChildren ch' (DeclarationReflection i k n ch ty tps sigs ix gs ss ow inh impl ext imps) =
     DeclarationReflection i k n ch' ty tps sigs ix gs ss ow inh impl ext imps"
| "setChildren ch' r = r"

definition updateChild :: "int \<Rightarrow> (reflection \<Rightarrow> reflection) \<Rightarrow> reflection \<Rightarrow> reflection" where
  "updateChild i f r = setChildren (map (\<lambda>c. if rid c = i then f c else c) (children r)) r"

definition updateModule :: "int \<Rightarrow> (reflection \<Rightarrow> reflection) \<Rightarrow> reflection \<Rightarrow> reflection" where
  "updateModule m f p = (if rid p = m then f p else updateChild m f p)"

definition addChildren :: "reflection list \<Rightarrow> reflection \<Rightarrow> reflection" where
  "addChildren new r = setChildren (children r @ new) r"

definition removeChild :: "int \<Rightarrow> reflection \<Rightarrow> reflection" where
  "removeChild i r = setChildren (filter (\<lambda>c. rid c \<noteq> i) (children r)) r"

text \<open>\<open>context.setActiveProgram(program)\<close>.\<close>

definition setActiveProgram :: "program option \<Rightarrow> ctx \<Rightarrow> ctx" where
  "setActiveProgram pr c = c\<lparr>activeProgram := pr\<rparr>"

text \<open>
  The project's \<open>registerReflection(reflection, symbol)\<close> binds the symbol to the
  reflection unless the symbol is bound already.
\<close>

definition bindSymbol :: "symbol \<Rightarrow> int \<Rightarrow> (symbol \<Rightarrow> int option) \<Rightarrow> (symbol \<Rightarrow> int option)" where
  "bindSymbol s i table = (case table s of None \<Rightarrow> table(s \<mapsto> i) | Some j \<Rightarrow> table)"

text \<open>
  \<open>context.withScope(mod).createDeclarationReflection(kind, undefined, undefined, name)\<close>:
  a new declaration with the next id, named by \<open>getHumanName\<close> of the name, becomes the
  last child of the scope, which is a module.  The result is the id of the new
  reflection.
\<close>

definition createDeclarationReflection ::
  "typedoc \<Rightarrow> int \<Rightarrow> reflectionKind \<Rightarrow> string \<Rightarrow> ctx \<Rightarrow> ctx \<times> int" where
  "createDeclarationReflection lib scope k n c =
     (let i = nextId c;
          r = DeclarationReflection i k (getHumanName lib n) []
                None [] [] None None None None None None [] []
      in (c\<lparr>project := updateModule scope (addChildren [r]) (project c),
              nextId := i + 1,
              calls := calls c @ [CreateDeclarationReflection scope i]\<rparr>, i))"

text \<open>
  The plugin's listener for the creation of a declaration (lines 42 to 46), called with
  the scope of the context that fired the event.  \<open>context.program\<close> raises when no
  program is active.
\<close>

definition onCreateDeclaration :: "reflection \<Rightarrow> ctx \<Rightarrow> ctx outcome" where
  "onCreateDeclaration scope c =
     (if kind scope = KProject \<or> kind scope = KModule then
        (case activeProgram c of
           None \<Rightarrow> Raises c
         | Some pr \<Rightarrow> Returns (c\<lparr>knownPrograms := (knownPrograms c)(rid scope \<mapsto> pr)\<rparr>))
      else Returns c)"

text \<open>
  \<open>context.finalizeDeclarationReflection(reflection)\<close> fires the creation event with
  \<open>context\<close>, whose scope is the project.
\<close>

definition finalizeDeclarationReflection :: "ctx \<Rightarrow> ctx outcome" where
  "finalizeDeclarationReflection c = onCreateDeclaration (project c) c"

text \<open>\<open>context.withScope(scope).registerReflection(ref, symbol)\<close>.\<close>

definition registerReflection :: "int \<Rightarrow> reflection \<Rightarrow> symbol \<Rightarrow> ctx \<Rightarrow> ctx" where
  "registerReflection scope ref s c =
     c\<lparr>symbolToReflectionIdMap := bindSymbol s (rid ref) (symbolToReflectionIdMap c),
       calls := calls c @ [RegisterReflection scope (rid ref) s]\<rparr>"

text \<open>
  \<open>internalContext.converter.convertSymbol(internalContext, m)\<close>, where the scope of
  \<open>internalContext\<close> is the internal namespace \<open>ns\<close> of the module \<open>m\<close>.  The events
  fired for the declarations it creates have a scope inside the namespace.
\<close>

definition convertSymbol :: "typedoc \<Rightarrow> int \<Rightarrow> int \<Rightarrow> symbol \<Rightarrow> ctx \<Rightarrow> ctx" where
  "convertSymbol lib m ns s c =
     (let r = conversionOf lib c ns s
      in c\<lparr>project := updateModule m (updateChild ns (addChildren (created r))) (project c),
            symbolToReflectionIdMap :=
              fold (\<lambda>(y, i). bindSymbol y i) (bound r) (symbolToReflectionIdMap c),
            nextId := nextFree r,
            calls := calls c @ [ConvertSymbol ns s]\<rparr>)"

text \<open>
  \<open>context.project.removeReflection(reflection)\<close> for a child \<open>ns\<close> of the module
  \<open>m\<close>: the reflection leaves the children of its parent.
\<close>

definition removeReflection :: "int \<Rightarrow> int \<Rightarrow> ctx \<Rightarrow> ctx" where
  "removeReflection m ns c =
     c\<lparr>project := updateModule m (removeChild ns) (project c),
       calls := calls c @ [RemoveReflection ns]\<rparr>"

section \<open>The resolution driver\<close>

text \<open>
  The variables of one module's pass: the context, the memoised \<open>internalContext\<close>
  (the id of the internal namespace once it exists) and the set \<open>tried\<close>.  \<open>tried\<close> is
  kept as the sequence of its \<open>add\<close> calls; the set is \<open>set (tried st)\<close>.
\<close>

record pass =
  ctxt :: ctx
  internalContext :: "int option"
  tried :: "symbol list"

text \<open>\<open>modules\<close>: the children of kind module, or the project when there are none.\<close>

definition modulesOf :: "reflection \<Rightarrow> int list" where
  "modulesOf p =
     (let modules = map rid (getChildrenByKind p KModule)
      in if length modules = 0 then [rid p] else modules)"

text \<open>\<open>getModule\<close>: the first module with a child of the kind and the id of \<open>ref\<close>.\<close>

definition getModule :: "reflection \<Rightarrow> int list \<Rightarrow> reflection \<Rightarrow> int option" where
  "getModule p modules ref =
     find (\<lambda>m. case moduleOf p m of
                 None \<Rightarrow> False
               | Some r \<Rightarrow> find (\<lambda>d. rid d = rid ref) (getChildrenByKind r (kind ref)) \<noteq> None)
       modules"

text \<open>
  \<open>createInternalContext\<close> for the module \<open>m\<close>; the result is the namespace's id.  The
  exception of the listener leaves the new namespace in the tree.
\<close>

definition createInternalContext ::
  "options \<Rightarrow> typedoc \<Rightarrow> int \<Rightarrow> pass \<Rightarrow> (pass \<times> int) outcome" where
  "createInternalContext opts lib m st =
     (case internalContext st of
        Some ns \<Rightarrow> Returns (st, ns)
      | None \<Rightarrow>
          (let c = setActiveProgram (knownPrograms (ctxt st) m) (ctxt st);
               (c, internalNs) =
                 createDeclarationReflection lib m KNamespace (internalNamespace opts) c
           in andThen (finalizeDeclarationReflection c)
                (\<lambda>c. Returns (st\<lparr>ctxt := c, internalContext := Some internalNs\<rparr>,
                              internalNs))))"

text \<open>The body of \<open>for (const m of missing)\<close>.\<close>

definition processSymbol ::
  "options \<Rightarrow> typedoc \<Rightarrow> int list \<Rightarrow> int \<Rightarrow> symbol \<Rightarrow> pass \<Rightarrow> pass outcome" where
  "processSymbol opts lib modules m s st0 =
     (let st = st0\<lparr>tried := tried st0 @ [s]\<rparr>
      in if symbolName s = ''default'' then Returns st
         else
           (case findReflectionByName lib (project (ctxt st)) (symbolName s) of
              Some ref \<Rightarrow>
                (case getModule (project (ctxt st)) modules ref of
                   Some modCtx \<Rightarrow>
                     Returns (st\<lparr>ctxt := registerReflection modCtx ref s (ctxt st)\<rparr>)
                 | None \<Rightarrow> Returns st)
            | None \<Rightarrow>
                if noMissingExports opts then Returns st
                else
                  andThen (createInternalContext opts lib m st)
                    (\<lambda>(st, ns). Returns (st\<lparr>ctxt := convertSymbol lib m ns s (ctxt st)\<rparr>))))"

text \<open>The loop \<open>for (const m of missing)\<close>: an exception ends it.\<close>

fun forMissing ::
  "options \<Rightarrow> typedoc \<Rightarrow> int list \<Rightarrow> int \<Rightarrow> symbol list \<Rightarrow> pass \<Rightarrow> pass outcome" where
  "forMissing opts lib modules m [] st = Returns st"
| "forMissing opts lib modules m (s # missing) st =
     andThen (processSymbol opts lib modules m s st) (forMissing opts lib modules m missing)"

text \<open>
  \<open>discoverMissingExports(mod)\<close> and \<open>discoverMissingExports(reflection)\<close>, where the
  module and the reflection of the internal context are read from the tree.
\<close>

definition discoverModule :: "ctx \<Rightarrow> int \<Rightarrow> symbol list" where
  "discoverModule c m =
     (case moduleOf (project c) m of
        None \<Rightarrow> []
      | Some r \<Rightarrow> discoverMissingExports (resolved c) r)"

definition discoverInternal :: "ctx \<Rightarrow> int \<Rightarrow> int \<Rightarrow> symbol list" where
  "discoverInternal c m ns =
     (case namespaceOf (project c) m ns of
        None \<Rightarrow> []
      | Some r \<Rightarrow> discoverMissingExports (resolved c) r)"

text \<open>
  The \<open>do ... while (missing.size > 0)\<close> loop.  The first argument bounds the number of
  rounds.
\<close>

fun fixpoint ::
  "nat \<Rightarrow> options \<Rightarrow> typedoc \<Rightarrow> int list \<Rightarrow> int \<Rightarrow> symbol list \<Rightarrow> pass \<Rightarrow> pass outcome" where
  "fixpoint 0 opts lib modules m missing st = Unfinished"
| "fixpoint (Suc n) opts lib modules m missing st =
     andThen (forMissing opts lib modules m missing st)
       (\<lambda>st. andThen
          (if \<not> noMissingExports opts then
             andThen (createInternalContext opts lib m st)
               (\<lambda>(st, ns). Returns (st, discoverInternal (ctxt st) m ns))
           else Returns (st, missing))
          (\<lambda>(st, missing).
             let missing = filter (\<lambda>s. s \<notin> set (tried st)) missing
             in if length missing > 0 then fixpoint n opts lib modules m missing st
                else Returns st))"

declare fixpoint.simps [simp del]

text \<open>The body of \<open>for (const mod of modules)\<close>.\<close>

definition resolveModule ::
  "nat \<Rightarrow> options \<Rightarrow> typedoc \<Rightarrow> int list \<Rightarrow> int \<Rightarrow> ctx \<Rightarrow> ctx outcome" where
  "resolveModule n opts lib modules m c =
     (let missing = discoverModule c m
      in if length missing = 0 then Returns c
         else
           andThen
             (fixpoint n opts lib modules m missing
                \<lparr>ctxt = c, internalContext = None, tried = []\<rparr>)
             (\<lambda>st. andThen (createInternalContext opts lib m st)
                (\<lambda>(st, ns).
                   let c = ctxt st;
                       c = (if (case namespaceOf (project c) m ns of
                                  None \<Rightarrow> True
                                | Some r \<Rightarrow> length (children r) = 0)
                            then removeReflection m ns c else c)
                   in Returns (setActiveProgram None c))))"

fun forModules ::
  "nat \<Rightarrow> options \<Rightarrow> typedoc \<Rightarrow> int list \<Rightarrow> int list \<Rightarrow> ctx \<Rightarrow> ctx outcome" where
  "forModules n opts lib modules [] c = Returns c"
| "forModules n opts lib modules (m # ms) c =
     andThen (resolveModule n opts lib modules m c) (forModules n opts lib modules ms)"

text \<open>\<open>onResolveBegin\<close>; \<open>knownPrograms\<close> is cleared at the end.\<close>

definition onResolveBegin :: "nat \<Rightarrow> options \<Rightarrow> typedoc \<Rightarrow> ctx \<Rightarrow> ctx outcome" where
  "onResolveBegin n opts lib c =
     (let modules = modulesOf (project c)
      in andThen (forModules n opts lib modules modules c)
           (\<lambda>c. Returns (c\<lparr>knownPrograms := Map.empty\<rparr>)))"

section \<open>Facts about the tree operations\<close>

lemma rid_setChildren [simp]: "rid (setChildren ch r) = rid r"
  by (cases r) simp_all

lemma kind_setChildren [simp]: "kind (setChildren ch r) = kind r"
  by (cases r) simp_all

lemma setChildren_children [simp]: "setChildren (children r) r = r"
  by (cases r) simp_all

lemma setChildren_twice [simp]: "setChildren ch (setChildren ch' r) = setChildren ch r"
  by (cases r) simp_all

text \<open>Only a project or a declaration holds children.\<close>

fun isContainer :: "reflection \<Rightarrow> bool" where
  "isContainer (ProjectReflection i n ch) = True"
| "isContainer (DeclarationReflection i k n ch ty tps sigs ix gs ss ow inh impl ext imps) = True"
| "isContainer r = False"

lemma children_setChildren [simp]:
  "children (setChildren ch r) = (if isContainer r then ch else [])"
  by (cases r) simp_all

lemma isContainer_setChildren [simp]: "isContainer (setChildren ch r) = isContainer r"
  by (cases r) simp_all

lemma children_not_container [simp]: "\<not> isContainer r \<Longrightarrow> children r = []"
  by (cases r) simp_all

lemma setChildren_not_container [simp]: "\<not> isContainer r \<Longrightarrow> setChildren ch r = r"
  by (cases r) simp_all

lemma rid_addChildren [simp]: "rid (addChildren new r) = rid r"
  by (simp add: addChildren_def)

lemma rid_removeChild [simp]: "rid (removeChild i r) = rid r"
  by (simp add: removeChild_def)

lemma rid_updateChild [simp]: "rid (updateChild i f r) = rid r"
  by (simp add: updateChild_def)

lemma remove_added:
  assumes "\<forall>x \<in> set (children r). rid x \<noteq> i" and "\<forall>x \<in> set new. rid x = i"
  shows "removeChild i (addChildren new r) = r"
proof -
  have "filter (\<lambda>x. rid x \<noteq> i) (children r @ new) = children r"
    using assms by (simp add: filter_id_conv filter_empty_conv)
  then show ?thesis
    by (cases "isContainer r") (simp_all add: removeChild_def addChildren_def)
qed

lemma updateModule_twice:
  assumes "\<And>x. rid (f x) = rid x"
  shows "updateModule m g (updateModule m f p) = updateModule m (\<lambda>x. g (f x)) p"
proof (cases "rid p = m")
  case True
  then show ?thesis by (simp add: updateModule_def assms)
next
  case False
  have "(\<lambda>c. if rid c = m then g c else c) \<circ> (\<lambda>c. if rid c = m then f c else c)
      = (\<lambda>c. if rid c = m then g (f c) else c)"
    by (auto simp: fun_eq_iff assms)
  with False show ?thesis
    by (cases "isContainer p") (simp_all add: updateModule_def updateChild_def)
qed

lemma updateModule_same:
  assumes "\<And>x. x = p \<or> x \<in> set (children p) \<Longrightarrow> rid x = m \<Longrightarrow> f x = x"
  shows "updateModule m f p = p"
proof (cases "rid p = m")
  case True
  then show ?thesis by (simp add: updateModule_def assms)
next
  case False
  have "map (\<lambda>c. if rid c = m then f c else c) (children p) = children p"
    using assms by (simp add: map_idI)
  with False show ?thesis by (simp add: updateModule_def updateChild_def)
qed

lemma childById_Some: "childById r i = Some x \<Longrightarrow> x \<in> set (children r) \<and> rid x = i"
  by (auto simp: childById_def find_Some_iff)

lemma childById_None: "childById r i = None \<longleftrightarrow> (\<forall>x \<in> set (children r). rid x \<noteq> i)"
  by (auto simp: childById_def find_None_iff)

lemma moduleOf_Some:
  "moduleOf p m = Some r \<Longrightarrow> (r = p \<or> r \<in> set (children p)) \<and> rid r = m"
  by (auto simp: moduleOf_def dest: childById_Some split: if_splits)

lemma namespaceOf_Some:
  "namespaceOf p m ns = Some x \<Longrightarrow>
   \<exists>r. (r = p \<or> r \<in> set (children p)) \<and> rid r = m \<and> x \<in> set (children r) \<and> rid x = ns"
  by (auto simp: namespaceOf_def dest!: moduleOf_Some childById_Some split: option.splits)

lemma find_map_update:
  assumes "\<And>x. rid (f x) = rid x"
  shows "find (\<lambda>c. rid c = i) (map (\<lambda>c. if rid c = j then f c else c) xs)
       = map_option (\<lambda>c. if rid c = j then f c else c) (find (\<lambda>c. rid c = i) xs)"
  by (induction xs) (simp_all add: assms)

lemma childById_updateChild:
  assumes "\<And>x. rid (f x) = rid x"
  shows "childById (updateChild j f r) i
       = map_option (\<lambda>c. if rid c = j then f c else c) (childById r i)"
  using find_map_update [of f i j "children r", OF assms]
  by (cases "isContainer r") (simp_all add: childById_def updateChild_def)

lemma moduleOf_updateModule:
  assumes "\<And>x. rid (f x) = rid x"
  shows "moduleOf (updateModule m f p) m = map_option f (moduleOf p m)"
proof (cases "rid p = m")
  case True
  then show ?thesis by (simp add: moduleOf_def updateModule_def assms)
next
  case False
  have "map_option (\<lambda>c. if rid c = m then f c else c) (childById p m)
      = map_option f (childById p m)"
    by (cases "childById p m") (auto dest: childById_Some)
  with False show ?thesis
    by (simp add: moduleOf_def updateModule_def childById_updateChild [OF assms])
qed

lemma namespaceOf_updateModule:
  assumes "\<And>x. rid (f x) = rid x"
  shows "namespaceOf (updateModule m f p) m ns
       = (case moduleOf p m of None \<Rightarrow> None | Some r \<Rightarrow> childById (f r) ns)"
  by (cases "moduleOf p m") (simp_all add: namespaceOf_def moduleOf_updateModule [OF assms])

lemma childById_removeChild [simp]: "childById (removeChild i r) i = None"
  by (cases "isContainer r") (simp_all add: childById_None removeChild_def)

lemma namespaceOf_removed [simp]:
  "namespaceOf (updateModule m (removeChild ns) p) m ns = None"
  by (simp add: namespaceOf_updateModule split: option.splits)

section \<open>A project without missing symbols\<close>

text \<open>
  Every reference to a symbol, in a traversed field of a reflection reachable from a
  module of the project, has a resolved reflection.
\<close>

definition fullyResolved :: "ctx \<Rightarrow> bool" where
  "fullyResolved c =
     (\<forall>m \<in> set (modulesOf (project c)).
      \<forall>r \<in> set (case moduleOf (project c) m of None \<Rightarrow> [] | Some r \<Rightarrow> reachable r).
      \<forall>t \<in> set (traversedTypes r).
      \<forall>tgt \<in> set (referenceTargets t). getSymbol tgt \<noteq> None \<longrightarrow> resolved c tgt)"

lemma fullyResolved_discoverModule:
  assumes "fullyResolved c" and "m \<in> set (modulesOf (project c))"
  shows "discoverModule c m = []"
proof (cases "moduleOf (project c) m")
  case None
  then show ?thesis by (simp add: discoverModule_def)
next
  case (Some r)
  have "missingSymbols (resolved c) r = {}"
    using assms Some by (fastforce simp: fullyResolved_def missingSymbols_def)
  then have "set (discoverMissingExports (resolved c) r) = {}"
    by (simp add: discoverMissingExports_set)
  with Some show ?thesis by (simp add: discoverModule_def)
qed

lemma reachable_self: "r \<in> set (reachable r)"
  by (subst reachable.simps) simp

lemma reachable_successor:
  "x \<in> set (successors r) \<Longrightarrow> y \<in> set (reachable x) \<Longrightarrow> y \<in> set (reachable r)"
  by (subst reachable.simps) auto

lemma children_successors: "x \<in> set (children r) \<Longrightarrow> x \<in> set (successors r)"
  by (cases r) (simp_all add: successors_def)

lemma children_reachable:
  "x \<in> set (children r) \<Longrightarrow> y \<in> set (reachable x) \<Longrightarrow> y \<in> set (reachable r)"
  by (rule reachable_successor [OF children_successors])

lemma module_children_reachable:
  assumes "x = p \<or> x \<in> set (children p)" and "y \<in> set (children x)"
  shows "y \<in> set (reachable p)"
proof -
  have y: "y \<in> set (reachable x)"
    using assms(2) by (rule children_reachable) (rule reachable_self)
  from assms(1) show ?thesis
  proof
    assume "x = p"
    with y show ?thesis by simp
  next
    assume "x \<in> set (children p)"
    then show ?thesis using y by (rule children_reachable)
  qed
qed

lemma module_children_fresh:
  assumes "\<forall>r \<in> set (reachable p). rid r < i" and "x = p \<or> x \<in> set (children p)"
  shows "\<forall>y \<in> set (children x). rid y \<noteq> i"
proof
  fix y assume "y \<in> set (children x)"
  with assms(2) have "y \<in> set (reachable p)" by (rule module_children_reachable)
  with assms(1) show "rid y \<noteq> i" by fastforce
qed

lemma find_last:
  "\<forall>y \<in> set xs. \<not> P y \<Longrightarrow> P z \<Longrightarrow> find P (xs @ [z]) = Some z"
  by (induction xs) simp_all

lemma kind_updateModule [simp]:
  "(\<And>x. kind (f x) = kind x) \<Longrightarrow> kind (updateModule m f p) = kind p"
  by (simp add: updateModule_def updateChild_def)

lemma rid_updateModule [simp]:
  "(\<And>x. rid (f x) = rid x) \<Longrightarrow> rid (updateModule m f p) = rid p"
  by (simp add: updateModule_def)

lemma kind_addChildren [simp]: "kind (addChildren new r) = kind r"
  by (simp add: addChildren_def)

section \<open>Outcomes\<close>

text \<open>A property of what a call returns, another of the state an exception leaves.\<close>

fun holds :: "('a \<Rightarrow> bool) \<Rightarrow> (ctx \<Rightarrow> bool) \<Rightarrow> 'a outcome \<Rightarrow> bool" where
  "holds P R (Returns a) = P a"
| "holds P R (Raises c) = R c"
| "holds P R Unfinished = True"

lemma holds_andThen:
  assumes "holds P R x" and "\<And>a. P a \<Longrightarrow> holds Q R (f a)"
  shows "holds Q R (andThen x f)"
  using assms by (cases x) simp_all

lemma holds_weaken:
  assumes "holds P R x" and "\<And>a. P a \<Longrightarrow> P' a" and "\<And>c. R c \<Longrightarrow> R' c"
  shows "holds P' R' x"
  using assms by (cases x) simp_all

lemma holds_Returns: "holds P R x \<Longrightarrow> x = Returns a \<Longrightarrow> P a"
  by simp

lemma holds_Raises: "holds P R x \<Longrightarrow> x = Raises c \<Longrightarrow> R c"
  by simp

lemma andThen_Returns:
  "andThen x f = Returns b \<Longrightarrow> \<exists>a. x = Returns a \<and> f a = Returns b"
  by (cases x) simp_all

section \<open>Creating the internal context\<close>

text \<open>The namespace that \<open>createInternalContext\<close> makes for a module.\<close>

definition emptyNamespace :: "options \<Rightarrow> typedoc \<Rightarrow> int \<Rightarrow> reflection" where
  "emptyNamespace opts lib i =
     DeclarationReflection i KNamespace (getHumanName lib (internalNamespace opts)) []
       None [] [] None None None None None None [] []"

lemma emptyNamespace_simps [simp]:
  "rid (emptyNamespace opts lib i) = i" "children (emptyNamespace opts lib i) = []"
  by (simp_all add: emptyNamespace_def)

text \<open>The context once the namespace has been created, before the event is fired.\<close>

definition namespaceAdded :: "options \<Rightarrow> typedoc \<Rightarrow> int \<Rightarrow> ctx \<Rightarrow> ctx" where
  "namespaceAdded opts lib m c =
     c\<lparr>activeProgram := knownPrograms c m,
       project := updateModule m (addChildren [emptyNamespace opts lib (nextId c)]) (project c),
       nextId := nextId c + 1,
       calls := calls c @ [CreateDeclarationReflection m (nextId c)]\<rparr>"

definition listening :: "reflection \<Rightarrow> bool" where
  "listening p = (kind p = KProject \<or> kind p = KModule)"

lemma createInternalContext_None:
  assumes "internalContext st = None"
  shows "createInternalContext opts lib m st =
     (case knownPrograms (ctxt st) m of
        None \<Rightarrow>
          if listening (project (ctxt st)) then Raises (namespaceAdded opts lib m (ctxt st))
          else Returns (st\<lparr>ctxt := namespaceAdded opts lib m (ctxt st),
                          internalContext := Some (nextId (ctxt st))\<rparr>, nextId (ctxt st))
      | Some pr \<Rightarrow>
          Returns (st\<lparr>ctxt :=
              if listening (project (ctxt st))
              then (namespaceAdded opts lib m (ctxt st))
                     \<lparr>knownPrograms := (knownPrograms (ctxt st))(rid (project (ctxt st)) \<mapsto> pr)\<rparr>
              else namespaceAdded opts lib m (ctxt st),
            internalContext := Some (nextId (ctxt st))\<rparr>, nextId (ctxt st)))"
  using assms
  by (simp add: createInternalContext_def createDeclarationReflection_def
      finalizeDeclarationReflection_def onCreateDeclaration_def setActiveProgram_def
      emptyNamespace_def namespaceAdded_def listening_def Let_def split: option.splits)

lemma createInternalContext_Some:
  "internalContext st = Some ns \<Longrightarrow> createInternalContext opts lib m st = Returns (st, ns)"
  by (simp add: createInternalContext_def)

text \<open>
  What every outcome of \<open>createInternalContext\<close> has in common: a returned pass differs
  from the given one at most by the created namespace and the recorded program, and an
  exception leaves the context with the namespace created.
\<close>

lemma createInternalContext_cases:
  obtains (memo) ns where "internalContext st = Some ns"
      "createInternalContext opts lib m st = Returns (st, ns)"
  | (raised) "internalContext st = None" "knownPrograms (ctxt st) m = None"
      "createInternalContext opts lib m st = Raises (namespaceAdded opts lib m (ctxt st))"
  | (made) kp where "internalContext st = None"
      "createInternalContext opts lib m st =
         Returns (st\<lparr>ctxt := (namespaceAdded opts lib m (ctxt st))\<lparr>knownPrograms := kp\<rparr>,
                    internalContext := Some (nextId (ctxt st))\<rparr>, nextId (ctxt st))"
proof (cases "internalContext st")
  case (Some ns)
  then show ?thesis using memo createInternalContext_Some by blast
next
  case None
  note k = createInternalContext_None [OF None, of opts lib m]
  show ?thesis
  proof (cases "knownPrograms (ctxt st) m")
    case kn: None
    show ?thesis
    proof (cases "listening (project (ctxt st))")
      case True
      with k kn None show ?thesis using raised by simp
    next
      case False
      have "(namespaceAdded opts lib m (ctxt st))
          \<lparr>knownPrograms := knownPrograms (namespaceAdded opts lib m (ctxt st))\<rparr>
          = namespaceAdded opts lib m (ctxt st)" by simp
      with k kn None False show ?thesis
        using made [of "knownPrograms (namespaceAdded opts lib m (ctxt st))"] by simp
    qed
  next
    case (Some pr)
    show ?thesis
    proof (cases "listening (project (ctxt st))")
      case True
      with k Some None show ?thesis
        using made [of "(knownPrograms (ctxt st))(rid (project (ctxt st)) \<mapsto> pr)"] by simp
    next
      case False
      have "(namespaceAdded opts lib m (ctxt st))
          \<lparr>knownPrograms := knownPrograms (namespaceAdded opts lib m (ctxt st))\<rparr>
          = namespaceAdded opts lib m (ctxt st)" by simp
      with k Some None False show ?thesis
        using made [of "knownPrograms (namespaceAdded opts lib m (ctxt st))"] by simp
    qed
  qed
qed

lemma createInternalContext_known:
  assumes "internalContext st = None \<longrightarrow> knownPrograms (ctxt st) m \<noteq> None"
  shows "\<exists>st' ns. createInternalContext opts lib m st = Returns (st', ns)"
  using assms by (cases rule: createInternalContext_cases [of st opts lib m]) auto

section \<open>The collector returns a set\<close>

lemma distinct_setAdd [simp]: "distinct (setAdd x xs) = distinct xs"
  by (auto simp: setAdd_def)

lemma fold_distinct:
  assumes "distinct (fst a)"
    and "\<And>t a. t \<in> set ts \<Longrightarrow> distinct (fst a) \<Longrightarrow> distinct (fst (f t a))"
  shows "distinct (fst (fold f ts a))"
  using assms by (induction ts arbitrary: a) simp_all

lemma visitor_distinct:
  "distinct (fst a) \<Longrightarrow> distinct (fst (visitor isResolved t a))"
proof (induction isResolved t a rule: visitor.induct)
  case (1 isResolved tgt args missing queue)
  let ?a = "(if \<not> isResolved tgt then
          (case getSymbol tgt of
             Some s \<Rightarrow> (setAdd s missing, queue)
           | None \<Rightarrow> (missing, queue))
        else (missing, queue))"
  have "distinct (fst ?a)" using 1(2) by (simp split: option.splits)
  then have "distinct (fst (fold (visitor isResolved) args ?a))"
    by (rule fold_distinct) (rule 1(1))
  then show ?case by simp
next
  case (2 isResolved d missing queue)
  then show ?case by simp
next
  case (3 isResolved ts a)
  from 3(2) have "distinct (fst (fold (visitor isResolved) ts a))"
    by (rule fold_distinct) (rule 3(1))
  then show ?case by simp
next
  case (4 isResolved a)
  then show ?case by simp
qed

lemma visitOpt_distinct:
  "distinct (fst a) \<Longrightarrow> distinct (fst (visitOpt isResolved t a))"
  by (cases t) (simp_all add: visitor_distinct)

lemma visitAll_distinct:
  "distinct (fst a) \<Longrightarrow> distinct (fst (visitAll isResolved ts a))"
  unfolding visitAll_def by (rule fold_distinct) (simp_all add: visitor_distinct)

lemma visitCurrent_distinct:
  "distinct (fst a) \<Longrightarrow> distinct (fst (visitCurrent isResolved c a))"
  by (cases c) (simp_all add: Let_def visitOpt_distinct visitAll_distinct)

lemma traverse_distinct:
  "distinct (fst a) \<Longrightarrow> distinct (traverse isResolved current a)"
proof (induction isResolved current a rule: traverse.induct)
  case (1 isResolved current a)
  obtain missing queue where v: "visitCurrent isResolved current a = (missing, queue)"
    by (cases "visitCurrent isResolved current a")
  have d: "distinct missing"
    using visitCurrent_distinct [OF 1(2), of isResolved current] by (simp add: v)
  show ?case
  proof (cases queue)
    case Nil
    with d v show ?thesis by (subst traverse.simps) simp
  next
    case (Cons nxt rest)
    have "distinct (traverse isResolved nxt (missing, rest))"
      using 1(1) [OF v [symmetric] Cons] d by simp
    then show ?thesis by (subst traverse.simps) (simp add: v Cons)
  qed
qed

lemma discoverMissingExports_distinct: "distinct (discoverMissingExports isResolved root)"
  by (simp add: discoverMissingExports_def traverse_distinct)

section \<open>The symbols a tree mentions\<close>

text \<open>Every symbol that is the target of a reference in a traversed field, resolved or not.\<close>

definition mentionedSymbols :: "reflection \<Rightarrow> symbol set" where
  "mentionedSymbols r = missingSymbols (\<lambda>t. False) r"

lemma missingSymbols_mentioned: "missingSymbols isResolved r \<subseteq> mentionedSymbols r"
  by (auto simp: mentionedSymbols_def missingSymbols_def)

lemma mentionedSymbols_unfold:
  "mentionedSymbols r
     = carried (\<lambda>t. False) r \<union> (\<Union>x \<in> set (successors r). mentionedSymbols x)"
  unfolding mentionedSymbols_def by (rule missingSymbols_unfold)

lemma mentioned_child: "x \<in> set (children r) \<Longrightarrow> mentionedSymbols x \<subseteq> mentionedSymbols r"
  by (subst (2) mentionedSymbols_unfold) (auto dest: children_successors)

lemma traversedTypes_setChildren [simp]: "traversedTypes (setChildren ch r) = traversedTypes r"
  by (cases r) simp_all

lemma successors_setChildren:
  "set (successors (setChildren ch r)) \<subseteq> set ch \<union> set (successors r)"
  by (cases r) (auto simp: successors_def)

lemma mentioned_setChildren:
  assumes "mentionedSymbols r \<subseteq> U" and "\<forall>x \<in> set ch. mentionedSymbols x \<subseteq> U"
  shows "mentionedSymbols (setChildren ch r) \<subseteq> U"
proof -
  have c: "carried (\<lambda>t. False) r \<subseteq> U"
    and s: "\<forall>x \<in> set (successors r). mentionedSymbols x \<subseteq> U"
    using assms(1) by (subst (asm) mentionedSymbols_unfold, blast)+
  have "mentionedSymbols x \<subseteq> U" if "x \<in> set (successors (setChildren ch r))" for x
    using that successors_setChildren [of ch r] s assms(2) by blast
  moreover have "carried (\<lambda>t. False) (setChildren ch r) = carried (\<lambda>t. False) r"
    by (simp add: carried_def)
  ultimately show ?thesis
    using c by (subst mentionedSymbols_unfold) blast
qed

lemma mentioned_children:
  "mentionedSymbols r \<subseteq> U \<Longrightarrow> \<forall>x \<in> set (children r). mentionedSymbols x \<subseteq> U"
  using mentioned_child by blast

lemma mentioned_addChildren:
  assumes "mentionedSymbols r \<subseteq> U" and "\<forall>x \<in> set new. mentionedSymbols x \<subseteq> U"
  shows "mentionedSymbols (addChildren new r) \<subseteq> U"
  unfolding addChildren_def
  using assms mentioned_children [OF assms(1)] by (intro mentioned_setChildren) auto

lemma mentioned_updateChild:
  assumes "mentionedSymbols r \<subseteq> U"
    and "\<And>x. mentionedSymbols x \<subseteq> U \<Longrightarrow> mentionedSymbols (f x) \<subseteq> U"
  shows "mentionedSymbols (updateChild i f r) \<subseteq> U"
  unfolding updateChild_def
  using assms mentioned_children [OF assms(1)] by (intro mentioned_setChildren) auto

lemma mentioned_updateModule:
  assumes "mentionedSymbols p \<subseteq> U"
    and "\<And>x. mentionedSymbols x \<subseteq> U \<Longrightarrow> mentionedSymbols (f x) \<subseteq> U"
  shows "mentionedSymbols (updateModule m f p) \<subseteq> U"
  using assms by (simp add: updateModule_def mentioned_updateChild)

lemma mentioned_emptyNamespace [simp]: "mentionedSymbols (emptyNamespace opts lib i) = {}"
  by (subst mentionedSymbols_unfold) (simp add: emptyNamespace_def carried_def successors_def)

lemma mentioned_module:
  assumes "moduleOf p m = Some r"
  shows "mentionedSymbols r \<subseteq> mentionedSymbols p"
  using moduleOf_Some [OF assms] mentioned_child [of r p] by auto

lemma mentioned_namespace:
  assumes "namespaceOf p m ns = Some x"
  shows "mentionedSymbols x \<subseteq> mentionedSymbols p"
proof -
  from assms obtain r where r: "moduleOf p m = Some r" and x: "childById r ns = Some x"
    by (cases "moduleOf p m") (simp_all add: namespaceOf_def)
  from childById_Some [OF x] have "mentionedSymbols x \<subseteq> mentionedSymbols r"
    by (simp add: mentioned_child)
  with mentioned_module [OF r] show ?thesis by blast
qed

lemma discoverModule_mentioned:
  "set (discoverModule c m) \<subseteq> mentionedSymbols (project c)"
proof (cases "moduleOf (project c) m")
  case None
  then show ?thesis by (simp add: discoverModule_def)
next
  case (Some r)
  have "set (discoverModule c m) = missingSymbols (resolved c) r"
    by (simp add: discoverModule_def Some discoverMissingExports_set)
  with missingSymbols_mentioned [of "resolved c" r] mentioned_module [OF Some]
  show ?thesis by blast
qed

lemma discoverInternal_mentioned:
  "set (discoverInternal c m ns) \<subseteq> mentionedSymbols (project c)"
proof (cases "namespaceOf (project c) m ns")
  case None
  then show ?thesis by (simp add: discoverInternal_def)
next
  case (Some r)
  have "set (discoverInternal c m ns) = missingSymbols (resolved c) r"
    by (simp add: discoverInternal_def Some discoverMissingExports_set)
  with missingSymbols_mentioned [of "resolved c" r] mentioned_namespace [OF Some]
  show ?thesis by blast
qed

lemma discoverModule_distinct: "distinct (discoverModule c m)"
  by (simp add: discoverModule_def discoverMissingExports_distinct split: option.splits)

lemma discoverInternal_distinct: "distinct (discoverInternal c m ns)"
  by (simp add: discoverInternal_def discoverMissingExports_distinct split: option.splits)

section \<open>Invariants of a pass\<close>

lemma createInternalContext_Returns:
  assumes "createInternalContext opts lib m st = Returns (st', ns)"
  shows "internalContext st' = Some ns" and "tried st' = tried st"
  using assms by (cases rule: createInternalContext_cases [of st opts lib m]; auto)+

lemma createInternalContext_finishes: "createInternalContext opts lib m st \<noteq> Unfinished"
  by (cases rule: createInternalContext_cases [of st opts lib m]) auto

text \<open>
  A property of the pass is preserved when the four changes of state keep it: the
  addition to \<open>tried\<close>, a registration, the creation of the internal context and a
  conversion under an existing namespace.
\<close>

definition preserved ::
  "options \<Rightarrow> typedoc \<Rightarrow> int \<Rightarrow> (pass \<Rightarrow> bool) \<Rightarrow> (ctx \<Rightarrow> bool) \<Rightarrow> bool" where
  "preserved opts lib m P R =
     ((\<forall>st s. P st \<longrightarrow> P (st\<lparr>tried := tried st @ [s]\<rparr>))
      \<and> (\<forall>st owner ref s. P st \<longrightarrow> P (st\<lparr>ctxt := registerReflection owner ref s (ctxt st)\<rparr>))
      \<and> (\<forall>st. P st \<longrightarrow> holds (\<lambda>(st', ns). P st') R (createInternalContext opts lib m st))
      \<and> (\<forall>st ns s. P st \<longrightarrow> internalContext st = Some ns \<longrightarrow>
            P (st\<lparr>ctxt := convertSymbol lib m ns s (ctxt st)\<rparr>)))"

lemma preservedI:
  assumes "\<And>st s. P st \<Longrightarrow> P (st\<lparr>tried := tried st @ [s]\<rparr>)"
    and "\<And>st owner ref s. P st \<Longrightarrow> P (st\<lparr>ctxt := registerReflection owner ref s (ctxt st)\<rparr>)"
    and "\<And>st. P st \<Longrightarrow> holds (\<lambda>(st', ns). P st') R (createInternalContext opts lib m st)"
    and "\<And>st ns s. P st \<Longrightarrow> internalContext st = Some ns \<Longrightarrow>
           P (st\<lparr>ctxt := convertSymbol lib m ns s (ctxt st)\<rparr>)"
  shows "preserved opts lib m P R"
  using assms unfolding preserved_def by blast

lemma preserved_create:
  "preserved opts lib m P R \<Longrightarrow> P st \<Longrightarrow>
   holds (\<lambda>(st', ns). P st') R (createInternalContext opts lib m st)"
  unfolding preserved_def by blast

lemma processSymbol_preserved:
  assumes "preserved opts lib m P R" and "P st"
  shows "holds P R (processSymbol opts lib modules m s st)"
proof -
  let ?st = "st\<lparr>tried := tried st @ [s]\<rparr>"
  have t: "P ?st" using assms unfolding preserved_def by blast
  have r: "P (?st\<lparr>ctxt := registerReflection owner ref s (ctxt ?st)\<rparr>)" for owner ref
    using assms(1) t unfolding preserved_def by blast
  have c: "holds P R (andThen (createInternalContext opts lib m ?st)
      (\<lambda>(st', ns). Returns (st'\<lparr>ctxt := convertSymbol lib m ns s (ctxt st')\<rparr>)))"
  proof (cases "createInternalContext opts lib m ?st")
    case (Returns a)
    obtain st' ns where a: "a = (st', ns)" by (cases a)
    have "P st'"
      using preserved_create [OF assms(1) t] by (simp add: Returns a)
    moreover have "internalContext st' = Some ns"
      using createInternalContext_Returns(1) Returns a by blast
    ultimately have "P (st'\<lparr>ctxt := convertSymbol lib m ns s (ctxt st')\<rparr>)"
      using assms(1) unfolding preserved_def by blast
    then show ?thesis by (simp add: Returns a)
  next
    case (Raises c')
    then show ?thesis using preserved_create [OF assms(1) t] by simp
  next
    case Unfinished
    then show ?thesis by simp
  qed
  show ?thesis
    using t r c by (simp add: processSymbol_def Let_def split: option.splits)
qed

lemma forMissing_preserved:
  assumes "preserved opts lib m P R"
  shows "P st \<Longrightarrow> holds P R (forMissing opts lib modules m missing st)"
proof (induction missing arbitrary: st)
  case Nil
  then show ?case by simp
next
  case (Cons s missing)
  have "holds P R (processSymbol opts lib modules m s st)"
    using assms Cons.prems by (rule processSymbol_preserved)
  then show ?case
    unfolding forMissing.simps using Cons.IH by (rule holds_andThen)
qed

lemma fixpoint_preserved:
  assumes "preserved opts lib m P R"
  shows "P st \<Longrightarrow> holds P R (fixpoint n opts lib modules m missing st)"
proof (induction n arbitrary: missing st)
  case 0
  then show ?case by (simp add: fixpoint.simps)
next
  case (Suc n)
  have f: "holds P R (forMissing opts lib modules m missing st)"
    using assms Suc.prems by (rule forMissing_preserved)
  show ?case
    unfolding fixpoint.simps
  proof (rule holds_andThen [OF f], rule holds_andThen)
    fix st1 assume p1: "P st1"
    show "holds (\<lambda>(st', missing'). P st') R
        (if \<not> noMissingExports opts then
           andThen (createInternalContext opts lib m st1)
             (\<lambda>(st, ns). Returns (st, discoverInternal (ctxt st) m ns))
         else Returns (st1, missing))"
    proof (cases "noMissingExports opts")
      case True
      with p1 show ?thesis by simp
    next
      case False
      have "holds (\<lambda>(st', missing'). P st') R
          (andThen (createInternalContext opts lib m st1)
             (\<lambda>(st, ns). Returns (st, discoverInternal (ctxt st) m ns)))"
        by (rule holds_andThen [OF preserved_create [OF assms p1]]) auto
      with False show ?thesis by simp
    qed
  next
    fix a :: "pass \<times> symbol list" assume "case a of (st', missing') \<Rightarrow> P st'"
    then show "holds P R
        (case a of
           (st, missing) \<Rightarrow>
             let missing = filter (\<lambda>s. s \<notin> set (tried st)) missing
             in if 0 < length missing then fixpoint n opts lib modules m missing st
                else Returns st)"
      using Suc.IH by (cases a) (simp add: Let_def)
  qed
qed

section \<open>The internal namespace of a module\<close>

text \<open>The creations of a reflection among the calls: scope and id.\<close>

fun creations :: "call list \<Rightarrow> (int \<times> int) list" where
  "creations [] = []"
| "creations (CreateDeclarationReflection scope i # cs) = (scope, i) # creations cs"
| "creations (c # cs) = creations cs"

lemma creations_append [simp]: "creations (xs @ ys) = creations xs @ creations ys"
  by (induction xs rule: creations.induct) simp_all

text \<open>
  During the pass of a module \<open>m\<close> that began with the creations \<open>base\<close> and the id
  counter at \<open>n0\<close>: as long as there is no internal context nothing has been created
  and the counter has not moved; afterwards the one creation is that of the namespace
  \<open>n0\<close> under \<open>m\<close>.
\<close>

definition namespaceState :: "(int \<times> int) list \<Rightarrow> int \<Rightarrow> int \<Rightarrow> pass \<Rightarrow> bool" where
  "namespaceState base m n0 st =
     (case internalContext st of
        None \<Rightarrow> creations (calls (ctxt st)) = base \<and> nextId (ctxt st) = n0
      | Some ns \<Rightarrow> ns = n0 \<and> creations (calls (ctxt st)) = base @ [(m, n0)])"

lemma namespaceState_tried [simp]:
  "namespaceState base m n0 (st\<lparr>tried := t\<rparr>) = namespaceState base m n0 st"
  by (simp add: namespaceState_def split: option.splits)

lemma namespaceState_preserved:
  "preserved opts lib m (namespaceState base m n0)
     (\<lambda>c. creations (calls c) = base @ [(m, n0)])"
proof (rule preservedI)
  fix st s assume "namespaceState base m n0 st"
  then show "namespaceState base m n0 (st\<lparr>tried := tried st @ [s]\<rparr>)"
    by simp
next
  fix st owner ref s assume "namespaceState base m n0 st"
  then show "namespaceState base m n0 (st\<lparr>ctxt := registerReflection owner ref s (ctxt st)\<rparr>)"
    by (simp add: namespaceState_def registerReflection_def split: option.splits)
next
  fix st assume s: "namespaceState base m n0 st"
  show "holds (\<lambda>(st', ns). namespaceState base m n0 st')
      (\<lambda>c. creations (calls c) = base @ [(m, n0)]) (createInternalContext opts lib m st)"
    using s by (cases rule: createInternalContext_cases [of st opts lib m])
      (simp_all add: namespaceState_def namespaceAdded_def)
next
  fix st ns s assume "namespaceState base m n0 st" "internalContext st = Some ns"
  then show "namespaceState base m n0 (st\<lparr>ctxt := convertSymbol lib m ns s (ctxt st)\<rparr>)"
    by (simp add: namespaceState_def convertSymbol_def Let_def)
qed

text \<open>As long as there is no internal context the module's program is known.\<close>

definition programKnown :: "int \<Rightarrow> pass \<Rightarrow> bool" where
  "programKnown m st = (internalContext st = None \<longrightarrow> knownPrograms (ctxt st) m \<noteq> None)"

lemma programKnown_preserved: "preserved opts lib m (programKnown m) (\<lambda>c. False)"
proof (rule preservedI)
  fix st s assume "programKnown m st"
  then show "programKnown m (st\<lparr>tried := tried st @ [s]\<rparr>)"
    by (simp add: programKnown_def)
next
  fix st owner ref s assume "programKnown m st"
  then show "programKnown m (st\<lparr>ctxt := registerReflection owner ref s (ctxt st)\<rparr>)"
    by (simp add: programKnown_def registerReflection_def)
next
  fix st assume s: "programKnown m st"
  show "holds (\<lambda>(st', ns). programKnown m st') (\<lambda>c. False)
      (createInternalContext opts lib m st)"
    using s by (cases rule: createInternalContext_cases [of st opts lib m])
      (simp_all add: programKnown_def)
next
  fix st ns s assume "programKnown m st" "internalContext st = Some ns"
  then show "programKnown m (st\<lparr>ctxt := convertSymbol lib m ns s (ctxt st)\<rparr>)"
    by (simp add: programKnown_def)
qed

lemma holds_no_raise: "holds P (\<lambda>c. False) x \<Longrightarrow> x \<noteq> Raises c"
  by (cases x) simp_all

text \<open>At most one child of the module has the id of the namespace.\<close>

definition countId :: "int \<Rightarrow> reflection \<Rightarrow> nat" where
  "countId i r = length (filter (\<lambda>x. rid x = i) (children r))"

definition namespaceUnique :: "(int \<times> int) list \<Rightarrow> int \<Rightarrow> int \<Rightarrow> pass \<Rightarrow> bool" where
  "namespaceUnique base m n0 st =
     (namespaceState base m n0 st
      \<and> (\<forall>r. moduleOf (project (ctxt st)) m = Some r \<longrightarrow>
            countId n0 r \<le> (case internalContext st of None \<Rightarrow> 0 | Some ns \<Rightarrow> 1)))"

lemma countId_addChildren:
  "countId i (addChildren [x] r) \<le> Suc (countId i r)"
  by (cases "isContainer r") (simp_all add: countId_def addChildren_def)

lemma countId_updateChild:
  assumes "\<And>x. rid (f x) = rid x"
  shows "countId i (updateChild j f r) = countId i r"
proof -
  have "filter (\<lambda>x. rid x = i) (map (\<lambda>c. if rid c = j then f c else c) xs)
      = map (\<lambda>c. if rid c = j then f c else c) (filter (\<lambda>x. rid x = i) xs)" for xs
    by (induction xs) (simp_all add: assms)
  then show ?thesis
    by (cases "isContainer r") (simp_all add: countId_def updateChild_def)
qed

lemma namespaceUnique_preserved:
  "preserved opts lib m (namespaceUnique base m n0)
     (\<lambda>c. creations (calls c) = base @ [(m, n0)])"
proof (rule preservedI)
  fix st s assume "namespaceUnique base m n0 st"
  then show "namespaceUnique base m n0 (st\<lparr>tried := tried st @ [s]\<rparr>)"
    by (simp add: namespaceUnique_def)
next
  fix st owner ref s assume "namespaceUnique base m n0 st"
  then show "namespaceUnique base m n0 (st\<lparr>ctxt := registerReflection owner ref s (ctxt st)\<rparr>)"
    by (simp add: namespaceUnique_def namespaceState_def registerReflection_def
        split: option.splits)
next
  fix st assume s: "namespaceUnique base m n0 st"
  then have ns: "namespaceState base m n0 st" by (simp add: namespaceUnique_def)
  note k = preserved_create [OF namespaceState_preserved ns, of opts lib]
  show "holds (\<lambda>(st', ns). namespaceUnique base m n0 st')
      (\<lambda>c. creations (calls c) = base @ [(m, n0)]) (createInternalContext opts lib m st)"
  proof (cases rule: createInternalContext_cases [of st opts lib m])
    case (memo ns)
    with s show ?thesis by simp
  next
    case raised
    with k show ?thesis by simp
  next
    case (made kp)
    let ?st = "st\<lparr>ctxt := (namespaceAdded opts lib m (ctxt st))\<lparr>knownPrograms := kp\<rparr>,
                    internalContext := Some (nextId (ctxt st))\<rparr>"
    have a: "namespaceState base m n0 ?st" using k made by simp
    have n: "nextId (ctxt st) = n0" using ns made(1) by (simp add: namespaceState_def)
    have "countId n0 r' \<le> 1" if r': "moduleOf (project (ctxt ?st)) m = Some r'" for r'
    proof -
      from r' obtain r where r: "moduleOf (project (ctxt st)) m = Some r"
        and e: "r' = addChildren [emptyNamespace opts lib (nextId (ctxt st))] r"
        by (auto simp: namespaceAdded_def moduleOf_updateModule)
      from s r made(1) have "countId n0 r = 0" by (simp add: namespaceUnique_def)
      with countId_addChildren [of n0 "emptyNamespace opts lib (nextId (ctxt st))" r] e
      show ?thesis by simp
    qed
    with a made show ?thesis by (simp add: namespaceUnique_def)
  qed
next
  fix st ns s assume u: "namespaceUnique base m n0 st" and i: "internalContext st = Some ns"
  let ?st = "st\<lparr>ctxt := convertSymbol lib m ns s (ctxt st)\<rparr>"
  have a: "namespaceState base m n0 ?st"
    using u i namespaceState_preserved [of opts lib m base n0]
    unfolding preserved_def namespaceUnique_def by blast
  have "countId n0 r' \<le> 1" if r': "moduleOf (project (ctxt ?st)) m = Some r'" for r'
  proof -
    from r' obtain r where r: "moduleOf (project (ctxt st)) m = Some r"
      and e: "r' = updateChild ns (addChildren (created (conversionOf lib (ctxt st) ns s))) r"
      by (auto simp: convertSymbol_def Let_def moduleOf_updateModule)
    from u r i have "countId n0 r \<le> 1" by (simp add: namespaceUnique_def)
    then show ?thesis by (simp add: e countId_updateChild)
  qed
  with a i show "namespaceUnique base m n0 ?st" by (simp add: namespaceUnique_def)
qed

section \<open>The rounds of the fixpoint loop\<close>

lemma processSymbol_tried:
  assumes "processSymbol opts lib modules m s st = Returns st'"
  shows "tried st' = tried st @ [s]"
proof -
  let ?st = "st\<lparr>tried := tried st @ [s]\<rparr>"
  have "tried st' = tried st @ [s]"
    if "andThen (createInternalContext opts lib m ?st)
      (\<lambda>(st', ns). Returns (st'\<lparr>ctxt := convertSymbol lib m ns s (ctxt st')\<rparr>)) = Returns st'"
  proof -
    from andThen_Returns [OF that] obtain st1 ns where
      k: "createInternalContext opts lib m ?st = Returns (st1, ns)"
      and e: "st' = st1\<lparr>ctxt := convertSymbol lib m ns s (ctxt st1)\<rparr>"
      by auto
    from createInternalContext_Returns(2) [OF k] e show ?thesis by simp
  qed
  with assms show ?thesis
    by (auto simp: processSymbol_def Let_def split: if_splits option.splits)
qed

lemma processSymbol_finishes: "processSymbol opts lib modules m s st \<noteq> Unfinished"
proof -
  have "andThen (createInternalContext opts lib m st1)
      (\<lambda>(st', ns). Returns (st'\<lparr>ctxt := convertSymbol lib m ns s (ctxt st')\<rparr>)) \<noteq> Unfinished"
    for st1
    using createInternalContext_finishes [of opts lib m st1]
    by (cases "createInternalContext opts lib m st1") auto
  then show ?thesis
    by (simp add: processSymbol_def Let_def split: option.splits)
qed

lemma forMissing_tried:
  "forMissing opts lib modules m missing st = Returns st' \<Longrightarrow> tried st' = tried st @ missing"
proof (induction missing arbitrary: st)
  case Nil
  then show ?case by simp
next
  case (Cons s missing)
  from andThen_Returns [OF Cons.prems [unfolded forMissing.simps]] obtain st1 where
    p: "processSymbol opts lib modules m s st = Returns st1"
    and f: "forMissing opts lib modules m missing st1 = Returns st'"
    by auto
  from processSymbol_tried [OF p] Cons.IH [OF f] show ?case by simp
qed

lemma forMissing_finishes: "forMissing opts lib modules m missing st \<noteq> Unfinished"
proof (induction missing arbitrary: st)
  case Nil
  then show ?case by simp
next
  case (Cons s missing)
  show ?case
    using processSymbol_finishes [of opts lib modules m s st] Cons.IH
    by (cases "processSymbol opts lib modules m s st") simp_all
qed

text \<open>The symbols mentioned by the tree stay within a set that holds those of every conversion.\<close>

lemma mentioned_preserved:
  assumes "\<forall>c ns s. \<forall>d \<in> set (created (conversionOf lib c ns s)). mentionedSymbols d \<subseteq> U"
  shows "preserved opts lib m (\<lambda>st. mentionedSymbols (project (ctxt st)) \<subseteq> U) (\<lambda>c. True)"
proof (rule preservedI)
  fix st :: pass and s assume "mentionedSymbols (project (ctxt st)) \<subseteq> U"
  then show "mentionedSymbols (project (ctxt (st\<lparr>tried := tried st @ [s]\<rparr>))) \<subseteq> U" by simp
next
  fix st :: pass and owner ref s assume "mentionedSymbols (project (ctxt st)) \<subseteq> U"
  then show "mentionedSymbols
      (project (ctxt (st\<lparr>ctxt := registerReflection owner ref s (ctxt st)\<rparr>))) \<subseteq> U"
    by (simp add: registerReflection_def)
next
  fix st :: pass assume s: "mentionedSymbols (project (ctxt st)) \<subseteq> U"
  have a: "mentionedSymbols (project (namespaceAdded opts lib m (ctxt st))) \<subseteq> U"
    unfolding namespaceAdded_def using s
    by (simp, intro mentioned_updateModule mentioned_addChildren) simp_all
  show "holds (\<lambda>(st', ns). mentionedSymbols (project (ctxt st')) \<subseteq> U) (\<lambda>c. True)
      (createInternalContext opts lib m st)"
    using s a by (cases rule: createInternalContext_cases [of st opts lib m]) simp_all
next
  fix st :: pass and ns s assume "mentionedSymbols (project (ctxt st)) \<subseteq> U"
  then show "mentionedSymbols
      (project (ctxt (st\<lparr>ctxt := convertSymbol lib m ns s (ctxt st)\<rparr>))) \<subseteq> U"
    unfolding convertSymbol_def Let_def using assms
    by (simp, intro mentioned_updateModule mentioned_updateChild mentioned_addChildren) auto
qed

lemma untried_left:
  assumes "finite U" and "missing \<noteq> []" and "set missing \<subseteq> U"
    and "set missing \<inter> T = {}"
  shows "0 < card (U - T)" and "card (U - (T \<union> set missing)) < card (U - T)"
proof -
  from assms(2) obtain x where x: "x \<in> set missing" by (cases missing) auto
  with assms(3,4) have u: "x \<in> U - T" by blast
  with assms(1) show "0 < card (U - T)" by (auto simp: card_gt_0_iff)
  from x u have "U - (T \<union> set missing) \<subset> U - T" by blast
  then show "card (U - (T \<union> set missing)) < card (U - T)"
    using assms(1) by (intro psubset_card_mono) simp_all
qed

lemma fixpoint_rounds:
  assumes "finite U"
    and "\<forall>c ns s. \<forall>d \<in> set (created (conversionOf lib c ns s)). mentionedSymbols d \<subseteq> U"
  shows "mentionedSymbols (project (ctxt st)) \<subseteq> U \<Longrightarrow>
    missing \<noteq> [] \<Longrightarrow> distinct missing \<Longrightarrow> set missing \<subseteq> U \<Longrightarrow>
    set missing \<inter> set (tried st) = {} \<Longrightarrow>
    distinct (tried st) \<Longrightarrow> set (tried st) \<subseteq> U \<Longrightarrow>
    card (U - set (tried st)) \<le> n \<Longrightarrow>
    (\<exists>st'. fixpoint n opts lib modules m missing st = Returns st'
          \<and> distinct (tried st') \<and> set (tried st') \<subseteq> U
          \<and> set (tried st) \<union> set missing \<subseteq> set (tried st'))
    \<or> (\<exists>c'. fixpoint n opts lib modules m missing st = Raises c')"
proof (induction n arbitrary: missing st)
  case 0
  have "0 < card (U - set (tried st))"
    using assms(1) "0.prems"(2,4,5) by (rule untried_left(1))
  with "0.prems"(8) have False by simp
  then show ?case ..
next
  case (Suc n)
  note inv = mentioned_preserved [OF assms(2), of opts m]
  have d1: "distinct (tried st @ missing)"
    using Suc.prems(3,5,6) by (simp add: Int_commute)
  have u1: "set (tried st @ missing) \<subseteq> U" using Suc.prems(4,7) by simp
  show ?case
  proof (cases "forMissing opts lib modules m missing st")
    case Unfinished
    with forMissing_finishes show ?thesis by blast
  next
    case (Raises c')
    then show ?thesis by (simp add: fixpoint.simps)
  next
    case (Returns st1)
    have t1: "tried st1 = tried st @ missing" using Returns by (rule forMissing_tried)
    have m1: "mentionedSymbols (project (ctxt st1)) \<subseteq> U"
      using forMissing_preserved [OF inv Suc.prems(1), of modules missing]
      by (simp add: Returns)
    show ?thesis
    proof (cases "noMissingExports opts")
      case True
      have "filter (\<lambda>s. s \<notin> set (tried st1)) missing = []"
        by (simp add: t1 filter_empty_conv)
      with True have "fixpoint (Suc n) opts lib modules m missing st = Returns st1"
        by (simp add: fixpoint.simps Returns Let_def)
      with d1 u1 t1 show ?thesis by simp
    next
      case False
      show ?thesis
      proof (cases "createInternalContext opts lib m st1")
        case Unfinished
        with createInternalContext_finishes show ?thesis by blast
      next
        case (Raises c')
        with False show ?thesis by (simp add: fixpoint.simps Returns)
      next
        case k: (Returns a)
        obtain st2 ns where a: "a = (st2, ns)" by (cases a)
        have t2: "tried st2 = tried st @ missing"
          using createInternalContext_Returns(2) [of opts lib m st1 st2 ns] k a t1 by simp
        have m2: "mentionedSymbols (project (ctxt st2)) \<subseteq> U"
          using preserved_create [OF inv m1] by (simp add: k a)
        define nxt where
          "nxt = filter (\<lambda>s. s \<notin> set (tried st2)) (discoverInternal (ctxt st2) m ns)"
        have step: "fixpoint (Suc n) opts lib modules m missing st
            = (if nxt \<noteq> [] then fixpoint n opts lib modules m nxt st2 else Returns st2)"
          using False by (simp add: fixpoint.simps Returns k a Let_def nxt_def)
        show ?thesis
        proof (cases "nxt = []")
          case True
          with step d1 u1 t2 show ?thesis by simp
        next
          case nonempty: False
          have x: "set nxt \<subseteq> U"
            using discoverInternal_mentioned [of "ctxt st2" m ns] m2 by (auto simp: nxt_def)
          have b: "distinct nxt" by (simp add: nxt_def discoverInternal_distinct)
          have c: "set nxt \<inter> set (tried st2) = {}" by (auto simp: nxt_def)
          have d: "distinct (tried st2)" and e: "set (tried st2) \<subseteq> U"
            using d1 u1 t2 by simp_all
          have "card (U - (set (tried st) \<union> set missing)) < card (U - set (tried st))"
            using assms(1) Suc.prems(2,4,5) by (rule untried_left(2))
          with Suc.prems(8) have f: "card (U - set (tried st2)) \<le> n"
            by (simp add: t2)
          from Suc.IH [OF m2 nonempty b x c d e f]
          show ?thesis
          proof
            assume "\<exists>st'. fixpoint n opts lib modules m nxt st2 = Returns st'
              \<and> distinct (tried st') \<and> set (tried st') \<subseteq> U
              \<and> set (tried st2) \<union> set nxt \<subseteq> set (tried st')"
            then obtain st' where
              r: "fixpoint n opts lib modules m nxt st2 = Returns st'"
              "distinct (tried st')" "set (tried st') \<subseteq> U"
              "set (tried st2) \<union> set nxt \<subseteq> set (tried st')"
              by blast
            from r(4) have "set (tried st) \<union> set missing \<subseteq> set (tried st')"
              by (simp add: t2)
            with step nonempty r(1,2,3) show ?thesis by simp
          next
            assume "\<exists>c'. fixpoint n opts lib modules m nxt st2 = Raises c'"
            with step nonempty show ?thesis by simp
          qed
        qed
      qed
    qed
  qed
qed

section \<open>The end of a pass\<close>

text \<open>What follows the loop once the internal context is at hand (lines 133 to 140).\<close>

definition finishPass :: "int \<Rightarrow> int \<Rightarrow> ctx \<Rightarrow> ctx" where
  "finishPass m ns c =
     setActiveProgram None
       (if (case namespaceOf (project c) m ns of
              None \<Rightarrow> True
            | Some r \<Rightarrow> length (children r) = 0)
        then removeReflection m ns c else c)"

lemma resolveModule_unfold:
  "discoverModule c m \<noteq> [] \<Longrightarrow>
   resolveModule n opts lib modules m c =
     andThen (fixpoint n opts lib modules m (discoverModule c m)
                \<lparr>ctxt = c, internalContext = None, tried = []\<rparr>)
       (\<lambda>st. andThen (createInternalContext opts lib m st)
          (\<lambda>(st, ns). Returns (finishPass m ns (ctxt st))))"
  by (simp add: resolveModule_def finishPass_def Let_def)

lemma resolveModule_holds:
  assumes "preserved opts lib m P R"
    and "P \<lparr>ctxt = c, internalContext = None, tried = []\<rparr>"
    and "discoverModule c m \<noteq> []"
  shows "holds (\<lambda>c'. \<exists>st ns. P st \<and> internalContext st = Some ns
                     \<and> c' = finishPass m ns (ctxt st)) R
           (resolveModule n opts lib modules m c)"
  unfolding resolveModule_unfold [OF assms(3)]
proof (rule holds_andThen [OF fixpoint_preserved [OF assms(1,2)]])
  fix st assume p: "P st"
  show "holds (\<lambda>c'. \<exists>st ns. P st \<and> internalContext st = Some ns
                     \<and> c' = finishPass m ns (ctxt st)) R
      (andThen (createInternalContext opts lib m st)
         (\<lambda>(st, ns). Returns (finishPass m ns (ctxt st))))"
  proof (cases "createInternalContext opts lib m st")
    case (Returns a)
    obtain st' ns where a: "a = (st', ns)" by (cases a)
    have "P st'" using preserved_create [OF assms(1) p] by (simp add: Returns a)
    moreover have "internalContext st' = Some ns"
      using createInternalContext_Returns(1) Returns a by blast
    ultimately show ?thesis by (auto simp: Returns a)
  next
    case (Raises c')
    then show ?thesis using preserved_create [OF assms(1) p] by simp
  next
    case Unfinished
    then show ?thesis by simp
  qed
qed

section \<open>A project without missing symbols\<close>

lemma forModules_skip:
  "\<forall>m \<in> set ms. discoverModule c m = [] \<Longrightarrow>
   forModules n opts lib modules ms c = Returns c"
  by (induction ms) (simp_all add: resolveModule_def)

section \<open>A pass without synthesis\<close>

text \<open>
  Between two states of a pass nothing but registrations has happened, none of them for
  a symbol whose name the lookup does not find.
\<close>

definition aliasedOnly :: "typedoc \<Rightarrow> pass \<Rightarrow> pass \<Rightarrow> bool" where
  "aliasedOnly lib st st' =
     (project (ctxt st') = project (ctxt st)
      \<and> nextId (ctxt st') = nextId (ctxt st)
      \<and> knownPrograms (ctxt st') = knownPrograms (ctxt st)
      \<and> internalContext st' = internalContext st
      \<and> (\<forall>y. findReflectionByName lib (project (ctxt st)) (symbolName y) = None \<longrightarrow>
            symbolToReflectionIdMap (ctxt st') y = symbolToReflectionIdMap (ctxt st) y))"

lemma bindSymbol_other: "y \<noteq> s \<Longrightarrow> bindSymbol s i table y = table y"
  by (simp add: bindSymbol_def split: option.splits)

lemma processSymbol_noSynthesis:
  assumes "noMissingExports opts"
  shows "\<exists>st'. processSymbol opts lib modules m s st = Returns st' \<and> aliasedOnly lib st st'"
proof -
  have "aliasedOnly lib st (st\<lparr>tried := tried st @ [s]\<rparr>)"
    by (simp add: aliasedOnly_def)
  moreover have "aliasedOnly lib st
      (st\<lparr>tried := tried st @ [s], ctxt := registerReflection owner ref s (ctxt st)\<rparr>)"
    if "findReflectionByName lib (project (ctxt st)) (symbolName s) = Some ref" for owner ref
  proof -
    have "bindSymbol s (rid ref) (symbolToReflectionIdMap (ctxt st)) y
        = symbolToReflectionIdMap (ctxt st) y"
      if "findReflectionByName lib (project (ctxt st)) (symbolName y) = None" for y
    proof -
      from that \<open>findReflectionByName lib (project (ctxt st)) (symbolName s) = Some ref\<close>
      have "y \<noteq> s" by auto
      then show ?thesis by (rule bindSymbol_other)
    qed
    then show ?thesis by (simp add: aliasedOnly_def registerReflection_def)
  qed
  ultimately show ?thesis
    using assms by (simp add: processSymbol_def Let_def split: option.splits)
qed

lemma aliasedOnly_trans:
  "aliasedOnly lib st st1 \<Longrightarrow> aliasedOnly lib st1 st2 \<Longrightarrow> aliasedOnly lib st st2"
  by (simp add: aliasedOnly_def)

lemma forMissing_noSynthesis:
  assumes "noMissingExports opts"
  shows "\<exists>st'. forMissing opts lib modules m missing st = Returns st' \<and> aliasedOnly lib st st'"
proof (induction missing arbitrary: st)
  case Nil
  show ?case by (simp add: aliasedOnly_def)
next
  case (Cons s missing)
  from processSymbol_noSynthesis [OF assms, of lib modules m s st] obtain st1 where
    p: "processSymbol opts lib modules m s st = Returns st1" and a: "aliasedOnly lib st st1"
    by blast
  from Cons.IH [of st1] obtain st' where
    f: "forMissing opts lib modules m missing st1 = Returns st'" and b: "aliasedOnly lib st1 st'"
    by blast
  from aliasedOnly_trans [OF a b] p f show ?case by simp
qed

lemma fixpoint_noSynthesis:
  assumes "noMissingExports opts"
  shows "\<exists>st'. fixpoint (Suc n) opts lib modules m missing st = Returns st'
           \<and> aliasedOnly lib st st'"
proof -
  from forMissing_noSynthesis [OF assms, of lib modules m missing st] obtain st' where
    f: "forMissing opts lib modules m missing st = Returns st'" and a: "aliasedOnly lib st st'"
    by blast
  have "filter (\<lambda>s. s \<notin> set (tried st')) missing = []"
    using forMissing_tried [OF f] by (simp add: filter_empty_conv)
  then have "fixpoint (Suc n) opts lib modules m missing st = Returns st'"
    using assms by (simp add: fixpoint.simps f Let_def)
  with a show ?thesis by blast
qed

section \<open>A namespace with a fresh id\<close>

lemma fresh_namespace_lookup:
  assumes "\<forall>r \<in> set (reachable p). rid r < i"
  shows "case namespaceOf (updateModule m (addChildren [emptyNamespace opts lib i]) p) m i of
           None \<Rightarrow> True | Some r \<Rightarrow> length (children r) = 0"
proof (cases "moduleOf p m")
  case None
  then show ?thesis by (simp add: namespaceOf_updateModule)
next
  case (Some x)
  from moduleOf_Some [OF Some] have "x = p \<or> x \<in> set (children p)" by simp
  with assms have "\<forall>y \<in> set (children x). rid y \<noteq> i"
    by (rule module_children_fresh)
  then have "find (\<lambda>c. rid c = i) (children x @ [emptyNamespace opts lib i])
      = Some (emptyNamespace opts lib i)"
    by (simp add: find_last)
  then show ?thesis
    by (cases "isContainer x")
      (simp_all add: namespaceOf_updateModule Some childById_def addChildren_def)
qed

lemma fresh_namespace_removed:
  assumes "\<forall>r \<in> set (reachable p). rid r < i"
  shows "updateModule m (removeChild i)
           (updateModule m (addChildren [emptyNamespace opts lib i]) p) = p"
proof -
  have "removeChild i (addChildren [emptyNamespace opts lib i] x) = x"
    if "x = p \<or> x \<in> set (children p)" for x
  proof (rule remove_added)
    show "\<forall>y \<in> set (children x). rid y \<noteq> i"
      using assms that by (rule module_children_fresh)
    show "\<forall>y \<in> set [emptyNamespace opts lib i]. rid y = i" by simp
  qed
  then show ?thesis
    by (simp add: updateModule_twice updateModule_same)
qed

lemma fresh_countId:
  assumes "\<forall>r \<in> set (reachable p). rid r < i" and "moduleOf p m = Some r"
  shows "countId i r = 0"
proof -
  from moduleOf_Some [OF assms(2)] have "r = p \<or> r \<in> set (children p)" by simp
  with assms(1) have "\<forall>y \<in> set (children r). rid y \<noteq> i"
    by (rule module_children_fresh)
  then show ?thesis by (simp add: countId_def filter_empty_conv)
qed

lemma countId_unique:
  assumes "countId i r \<le> 1" and "childById r i = Some y" and "x \<in> set (children r)"
    and "rid x = i"
  shows "x = y"
proof -
  have "find P xs = Some y \<Longrightarrow> length (filter P xs) \<le> 1 \<Longrightarrow> x \<in> set xs \<Longrightarrow> P x \<Longrightarrow> x = y"
    for P xs
  proof (induction xs)
    case Nil
    then show ?case by simp
  next
    case (Cons a xs)
    show ?case
    proof (cases "P a")
      case True
      with Cons.prems have "filter P xs = []" "a = y" by simp_all
      with Cons.prems(3,4) True show ?thesis by (auto simp: filter_empty_conv)
    next
      case False
      with Cons show ?thesis by auto
    qed
  qed
  from this [of "\<lambda>c. rid c = i" "children r"] assms show ?thesis
    by (simp add: childById_def countId_def)
qed

section \<open>The lookup by name of the documentation generator\<close>

text \<open>
  For the examples: \<open>findReflectionByName\<close> of a reflection without parent, as the
  project is.  The name is split at the dots outside double quotes; the first part
  names a reflection among those the reflection's \<open>traverse\<close> visits, the remaining
  parts are looked up in it.
\<close>

fun splitOn :: "char \<Rightarrow> string \<Rightarrow> string list" where
  "splitOn d [] = [[]]"
| "splitOn d (c # cs) =
     (if c = d then [] # splitOn d cs
      else (case splitOn d cs of [] \<Rightarrow> [[c]] | x # xs \<Rightarrow> (c # x) # xs))"

function splitUnquotedString :: "string \<Rightarrow> string list" where
  "splitUnquotedString input =
     (if take 1 input = [CHR ''.''] then splitUnquotedString (drop 1 input)
      else if take 1 input = [CHR 0x22] then
        (let inner = takeWhile (\<lambda>c. c \<noteq> CHR 0x22) (drop 1 input);
             closingQuoteIndex = length inner + 1
         in if length input \<le> closingQuoteIndex then splitOn (CHR ''.'') input
            else if closingQuoteIndex = length input - 1 then [input]
            else take (closingQuoteIndex + 1) input
                   # splitUnquotedString (drop (closingQuoteIndex + 1) input))
      else splitOn (CHR ''.'') input)"
  by pat_completeness auto

termination
proof (relation "measure length", goal_cases)
  case 1
  show ?case by simp
next
  case (2 input)
  then have "input \<noteq> []" by auto
  then show ?case by simp
next
  case (3 input inner closingQuoteIndex)
  then have "input \<noteq> []" by auto
  with 3 show ?case by simp
qed

declare splitUnquotedString.simps [simp del]

fun inlineDeclaration :: "someType option \<Rightarrow> reflection list" where
  "inlineDeclaration (Some (ReflectionType d)) = [d]"
| "inlineDeclaration t = []"

fun traversed :: "reflection \<Rightarrow> reflection list" where
  "traversed (ProjectReflection i n ch) = ch"
| "traversed (DeclarationReflection i k n ch ty tps sigs ix gs ss ow inh impl ext imps) =
     tps @ inlineDeclaration ty @ sigs @ optional ix @ optional gs @ optional ss @ ch"
| "traversed (SignatureReflection i k n ps tps ty ow inh impl) =
     inlineDeclaration ty @ tps @ ps"
| "traversed (ParameterReflection i k n ty) = inlineDeclaration ty"
| "traversed (TypeParameterReflection i k n ty df) = []"

fun getChildByName :: "reflection \<Rightarrow> string list \<Rightarrow> reflection option" where
  "getChildByName r [] = None"
| "getChildByName r (name # names) =
     (case find (\<lambda>child. rname child = name) (traversed r) of
        None \<Rightarrow> None
      | Some child \<Rightarrow> if length names = 0 then Some child else getChildByName child names)"

definition findByName :: "reflection \<Rightarrow> string \<Rightarrow> reflection option" where
  "findByName p n = getChildByName p (splitUnquotedString n)"

section \<open>Example projects\<close>

definition plainDeclaration ::
  "int \<Rightarrow> reflectionKind \<Rightarrow> string \<Rightarrow> reflection list \<Rightarrow> someType option \<Rightarrow> reflection" where
  "plainDeclaration i k n ch ty =
     DeclarationReflection i k n ch ty [] [] None None None None None None [] []"

definition symT :: symbol where "symT = Symbol 1 ''T''"
definition symU :: symbol where "symU = Symbol 2 ''U''"
definition symV :: symbol where "symV = Symbol 3 ''V''"
definition symDefault :: symbol where "symDefault = Symbol 4 ''default''"
definition symB :: symbol where "symB = Symbol 5 ''B''"
definition symBT :: symbol where "symBT = Symbol 6 ''B.T''"

text \<open>
  The conversions of the examples: \<open>U\<close> becomes an interface whose type refers to \<open>V\<close>,
  \<open>V\<close> an interface; no other symbol has a declaration.
\<close>

definition exampleConversion :: "ctx \<Rightarrow> int \<Rightarrow> symbol \<Rightarrow> conversion" where
  "exampleConversion c ns s =
     (if s = symU then
        \<lparr>created = [plainDeclaration (nextId c) KInterface ''U'' []
                      (Some (ReferenceType (TargetSymbol symV) []))],
         bound = [(symU, nextId c)], nextFree = nextId c + 1\<rparr>
      else if s = symV then
        \<lparr>created = [plainDeclaration (nextId c) KInterface ''V'' [] None],
         bound = [(symV, nextId c)], nextFree = nextId c + 1\<rparr>
      else \<lparr>created = [], bound = [], nextFree = nextId c\<rparr>)"

text \<open>The names of the examples are not those of unique symbols and pass unchanged.\<close>

definition exampleTypedoc :: typedoc where
  "exampleTypedoc = \<lparr>findReflectionByName = findByName, conversionOf = exampleConversion,
     getHumanName = (\<lambda>n. n)\<rparr>"

definition synthesis :: options where
  "synthesis = \<lparr>internalNamespace = ''internal'', noMissingExports = False\<rparr>"

definition noSynthesis :: options where
  "noSynthesis = \<lparr>internalNamespace = ''internal'', noMissingExports = True\<rparr>"

text \<open>
  Module \<open>A\<close> exports a function whose type refers to a symbol; \<open>T\<close> is documented as a
  child of module \<open>B\<close>.
\<close>

definition projectAB :: "symbol \<Rightarrow> reflection" where
  "projectAB s = ProjectReflection 0 ''project''
     [plainDeclaration 1 KModule ''A''
        [plainDeclaration 3 KFunction ''f'' [] (Some (ReferenceType (TargetSymbol s) []))] None,
      plainDeclaration 2 KModule ''B'' [plainDeclaration 4 KInterface ''T'' [] None] None]"

text \<open>Module \<open>A\<close> alone, with a function whose type refers to a symbol.\<close>

definition projectA :: "symbol \<Rightarrow> reflection" where
  "projectA s = ProjectReflection 0 ''project''
     [plainDeclaration 1 KModule ''A''
        [plainDeclaration 3 KFunction ''f'' [] (Some (ReferenceType (TargetSymbol s) []))]
        None]"

text \<open>A module whose function mentions a reference without target and the symbol \<open>T\<close>.\<close>

definition moduleBroken :: reflection where
  "moduleBroken = plainDeclaration 1 KModule ''A''
     [plainDeclaration 3 KFunction ''f'' []
        (Some (CompositeType [ReferenceType (TargetId (- 1)) [],
                              ReferenceType (TargetSymbol symT) []]))] None"

text \<open>The state at the start of a run: nothing registered, the programs as given.\<close>

definition startOf :: "reflection \<Rightarrow> int \<Rightarrow> (int \<Rightarrow> program option) \<Rightarrow> ctx" where
  "startOf p i programs = \<lparr>project = p, symbolToReflectionIdMap = Map.empty, nextId = i,
     activeProgram = None, knownPrograms = programs, calls = []\<rparr>"

definition passOf :: "ctx \<Rightarrow> pass" where
  "passOf c = \<lparr>ctxt = c, internalContext = None, tried = []\<rparr>"

lemmas example_defs = plainDeclaration_def symT_def symU_def symV_def symDefault_def
  symB_def symBT_def projectAB_def projectA_def startOf_def passOf_def synthesis_def
  noSynthesis_def exampleTypedoc_def exampleConversion_def moduleBroken_def

lemmas read_defs = reachable.simps successors_def findByName_def
  splitUnquotedString.simps getModule_def moduleOf_def childById_def getChildrenByKind_def

lemmas collect_defs = discoverMissingExports_def traverse_unfold Let_def visitAll_def setAdd_def

lemmas driver_defs = onResolveBegin_def modulesOf_def resolveModule_def discoverModule_def
  discoverInternal_def processSymbol_def createInternalContext_def
  createDeclarationReflection_def finalizeDeclarationReflection_def onCreateDeclaration_def
  registerReflection_def bindSymbol_def convertSymbol_def
  removeReflection_def setActiveProgram_def fixpoint.simps namespaceOf_def updateModule_def
  updateChild_def addChildren_def removeChild_def resolved_def typeReflection_def
  getReflectionById_def

text \<open>The project of modules \<open>A\<close> and \<open>B\<close> after a run of the driver.\<close>

definition afterAB :: ctx where
  "afterAB = \<lparr>project = projectAB symBT, symbolToReflectionIdMap = [symBT \<mapsto> 4], nextId = 6,
     activeProgram = None, knownPrograms = Map.empty,
     calls = [RegisterReflection 2 4 symBT, CreateDeclarationReflection 1 5,
              RemoveReflection 5]\<rparr>"

text \<open>Module \<open>A\<close> after the pass in which \<open>U\<close> and then \<open>V\<close> have been synthesised.\<close>

definition afterU :: ctx where
  "afterU = \<lparr>project = ProjectReflection 0 ''project''
       [plainDeclaration 1 KModule ''A''
          [plainDeclaration 3 KFunction ''f'' [] (Some (ReferenceType (TargetSymbol symU) [])),
           plainDeclaration 4 KNamespace ''internal''
             [plainDeclaration 5 KInterface ''U'' []
                (Some (ReferenceType (TargetSymbol symV) [])),
              plainDeclaration 6 KInterface ''V'' [] None] None]
          None],
     symbolToReflectionIdMap = [symU \<mapsto> 5, symV \<mapsto> 6], nextId = 7,
     activeProgram = None, knownPrograms = [1 \<mapsto> 7, 0 \<mapsto> 7],
     calls = [CreateDeclarationReflection 1 4, ConvertSymbol 4 symU, ConvertSymbol 4 symV]\<rparr>"

text \<open>Module \<open>A\<close> after the pass in which its only missing symbol is named \<open>default\<close>.\<close>

definition afterDefault :: ctx where
  "afterDefault = \<lparr>project = projectA symDefault, symbolToReflectionIdMap = Map.empty,
     nextId = 5, activeProgram = None, knownPrograms = [1 \<mapsto> 7, 0 \<mapsto> 7],
     calls = [CreateDeclarationReflection 1 4, RemoveReflection 4]\<rparr>"

text \<open>Module \<open>A\<close> after the exception of a pass for which no program is known.\<close>

definition afterRaise :: ctx where
  "afterRaise = \<lparr>project = ProjectReflection 0 ''project''
       [plainDeclaration 1 KModule ''A''
          [plainDeclaration 3 KFunction ''f'' [] (Some (ReferenceType (TargetSymbol symU) [])),
           plainDeclaration 4 KNamespace ''internal'' [] None]
          None],
     symbolToReflectionIdMap = Map.empty, nextId = 5,
     activeProgram = None, knownPrograms = Map.empty,
     calls = [CreateDeclarationReflection 1 4]\<rparr>"

text \<open>Runs of the driver on the examples.\<close>

lemma firstRunAB:
  "onResolveBegin (Suc 0) synthesis exampleTypedoc
     (startOf (projectAB symBT) 5 [1 \<mapsto> 7, 2 \<mapsto> 7]) = Returns afterAB"
  by (simp add: afterAB_def example_defs read_defs collect_defs driver_defs)

lemma synthesis_run:
  "resolveModule (Suc (Suc 0)) synthesis exampleTypedoc [1] 1
     (startOf (projectA symU) 4 [1 \<mapsto> 7]) = Returns afterU"
  by (simp add: afterU_def example_defs read_defs collect_defs driver_defs)

lemma default_run:
  "resolveModule (Suc 0) synthesis exampleTypedoc [1] 1
     (startOf (projectA symDefault) 4 [1 \<mapsto> 7]) = Returns afterDefault"
  by (simp add: afterDefault_def example_defs read_defs collect_defs driver_defs)

lemma raising_run:
  "resolveModule (Suc (Suc 0)) synthesis exampleTypedoc [1] 1
     (startOf (projectA symU) 4 Map.empty) = Raises afterRaise"
  by (simp add: afterRaise_def example_defs read_defs collect_defs driver_defs)

lemma raising_run_noSynthesis:
  "resolveModule (Suc 0) noSynthesis exampleTypedoc [1] 1
     (startOf (projectA symU) 4 Map.empty) = Raises afterRaise"
  by (simp add: afterRaise_def example_defs read_defs collect_defs driver_defs)

lemma discover_projectA:
  "discoverModule (startOf (projectA s) 4 programs) 1 = [s]"
  by (simp add: example_defs collect_defs discoverModule_def moduleOf_def
      childById_def resolved_def typeReflection_def)

lemma discover_projectAB:
  "discoverModule (startOf (projectAB s) 5 programs) 1 = [s]"
  by (simp add: example_defs collect_defs discoverModule_def moduleOf_def
      childById_def resolved_def typeReflection_def)

lemma reachable_projectA: "map rid (reachable (projectA s)) = [0, 1, 3]"
  by (simp add: example_defs read_defs)

lemma fresh_projectA: "\<forall>r \<in> set (reachable (projectA s)). rid r < 4"
proof -
  have "\<forall>i \<in> set (map rid (reachable (projectA s))). i < 4"
    by (simp add: reachable_projectA)
  then show ?thesis by simp
qed


lemma findB:
  "findByName (projectAB s) ''B''
     = Some (plainDeclaration 2 KModule ''B'' [plainDeclaration 4 KInterface ''T'' [] None] None)"
  by (simp add: example_defs read_defs)

lemma findU: "findByName (projectA s) ''U'' = None"
  by (simp add: example_defs read_defs)


lemma getModule_B:
  "getModule (projectAB s) [1, 2]
     (plainDeclaration 2 KModule ''B'' [plainDeclaration 4 KInterface ''T'' [] None] None) = None"
  by (simp add: example_defs read_defs)

lemma resolved_afterAB: "resolved afterAB (TargetSymbol symBT)"
  by (simp add: afterAB_def example_defs read_defs driver_defs)

lemma modules_afterAB: "modulesOf (project afterAB) = [1, 2]"
  by (simp add: afterAB_def example_defs modulesOf_def getChildrenByKind_def)

lemma fullyResolved_afterAB: "fullyResolved afterAB"
  unfolding fullyResolved_def modules_afterAB
  apply (simp add: moduleOf_def childById_def afterAB_def projectAB_def plainDeclaration_def)
  apply (simp add: reachable.simps successors_def)
  apply (simp add: resolved_afterAB [unfolded afterAB_def projectAB_def plainDeclaration_def])
  done

lemma mentioned_list: "mentionedSymbols r = set (discoverMissingExports (\<lambda>t. False) r)"
  by (simp add: mentionedSymbols_def discoverMissingExports_set)

lemma mentioned_projectA: "mentionedSymbols (projectA s) = {s}"
  by (simp add: mentioned_list example_defs collect_defs)

lemma mentioned_exampleConversion:
  "\<forall>c' ns s. \<forall>d \<in> set (created (conversionOf exampleTypedoc c' ns s)).
     mentionedSymbols d \<subseteq> {symU, symV}"
  by (simp add: mentioned_list example_defs collect_defs)

lemma firstRunA:
  "onResolveBegin (Suc (Suc 0)) synthesis exampleTypedoc
     (startOf (projectA symU) 4 [1 \<mapsto> 7]) = Returns (afterU\<lparr>knownPrograms := Map.empty\<rparr>)"
  by (simp add: afterU_def example_defs read_defs collect_defs driver_defs)

lemma modules_afterU: "modulesOf (project afterU) = [1]"
  by (simp add: afterU_def example_defs modulesOf_def getChildrenByKind_def)

lemma resolved_afterU:
  "resolved (afterU\<lparr>knownPrograms := Map.empty\<rparr>) (TargetSymbol symU)"
  "resolved (afterU\<lparr>knownPrograms := Map.empty\<rparr>) (TargetSymbol symV)"
  by (simp_all add: afterU_def example_defs read_defs driver_defs)

lemma fullyResolved_afterU: "fullyResolved (afterU\<lparr>knownPrograms := Map.empty\<rparr>)"
  unfolding fullyResolved_def
  apply (simp add: modules_afterU)
  apply (simp add: moduleOf_def childById_def afterU_def plainDeclaration_def)
  apply (simp add: reachable.simps successors_def)
  apply (simp add: resolved_afterU [unfolded afterU_def plainDeclaration_def, simplified])
  done

section \<open>Claims about one missing symbol\<close>






text \<open>
  C9.  When the lookup by name finds a reflection and \<open>getModule\<close> finds no module for
  it, the symbol is only added to \<open>tried\<close>: nothing is registered and nothing is
  converted.  In the example the symbol has the name of module \<open>B\<close>, which is found and
  is the child of no module.
\<close>

theorem unowned_reflection_dropped:
  assumes "findReflectionByName lib (project (ctxt st)) (symbolName s) = Some ref"
    and "getModule (project (ctxt st)) modules ref = None"
  shows "processSymbol opts lib modules m s st = Returns (st\<lparr>tried := tried st @ [s]\<rparr>)"
  using assms by (simp add: processSymbol_def Let_def)

theorem unowned_reflection_dropped_witness:
  "findReflectionByName exampleTypedoc
       (project (ctxt (passOf (startOf (projectAB symB) 5 [1 \<mapsto> 7, 2 \<mapsto> 7])))) (symbolName symB)
     = Some (plainDeclaration 2 KModule ''B'' [plainDeclaration 4 KInterface ''T'' [] None] None)
   \<and> getModule (project (ctxt (passOf (startOf (projectAB symB) 5 [1 \<mapsto> 7, 2 \<mapsto> 7])))) [1, 2]
        (plainDeclaration 2 KModule ''B'' [plainDeclaration 4 KInterface ''T'' [] None] None)
       = None
   \<and> processSymbol synthesis exampleTypedoc [1, 2] 1 symB
        (passOf (startOf (projectAB symB) 5 [1 \<mapsto> 7, 2 \<mapsto> 7]))
       = Returns \<lparr>ctxt = startOf (projectAB symB) 5 [1 \<mapsto> 7, 2 \<mapsto> 7],
                  internalContext = None, tried = [symB]\<rparr>"
proof -
  let ?B = "plainDeclaration 2 KModule ''B'' [plainDeclaration 4 KInterface ''T'' [] None] None"
  have f: "findReflectionByName exampleTypedoc
       (project (ctxt (passOf (startOf (projectAB symB) 5 [1 \<mapsto> 7, 2 \<mapsto> 7])))) (symbolName symB)
     = Some ?B"
    using findB by (simp add: passOf_def startOf_def symB_def exampleTypedoc_def)
  have g: "getModule (project (ctxt (passOf (startOf (projectAB symB) 5 [1 \<mapsto> 7, 2 \<mapsto> 7]))))
       [1, 2] ?B = None"
    using getModule_B by (simp add: passOf_def startOf_def)
  show ?thesis
    using f g unowned_reflection_dropped [OF f g, of synthesis 1]
    by (simp add: passOf_def)
qed

section \<open>Claims about the pass over one module\<close>

text \<open>
  C2, as the code has it.  The pass over a module creates the namespace reflection
  exactly once when the module has missing symbols and never otherwise, whether the
  pass returns or raises: the creations among the calls grow by the one of the
  namespace, numbered by the id counter at the start of the pass, under the module.
  The namespace is created whether or not a symbol is synthesised.
\<close>

theorem namespace_created_once:
  assumes "resolveModule n opts lib modules m c = Returns c'
         \<or> resolveModule n opts lib modules m c = Raises c'"
  shows "creations (calls c')
       = creations (calls c) @ (if discoverModule c m = [] then [] else [(m, nextId c)])"
proof (cases "discoverModule c m = []")
  case True
  with assms show ?thesis by (simp add: resolveModule_def)
next
  case False
  have i: "namespaceState (creations (calls c)) m (nextId c)
      \<lparr>ctxt = c, internalContext = None, tried = []\<rparr>"
    by (simp add: namespaceState_def)
  note h = resolveModule_holds [OF namespaceState_preserved i False,
      where n = n and modules = modules]
  from assms show ?thesis
  proof
    assume r: "resolveModule n opts lib modules m c = Returns c'"
    from holds_Returns [OF h r] obtain st ns where
      "namespaceState (creations (calls c)) m (nextId c) st"
      "internalContext st = Some ns" "c' = finishPass m ns (ctxt st)"
      by blast
    then show ?thesis
      using False
      by (simp add: namespaceState_def finishPass_def setActiveProgram_def
          removeReflection_def)
  next
    assume r: "resolveModule n opts lib modules m c = Raises c'"
    from holds_Raises [OF h r] show ?thesis using False by simp
  qed
qed

theorem namespace_created_once_witness:
  "resolveModule (Suc (Suc 0)) synthesis exampleTypedoc [1] 1
     (startOf (projectA symU) 4 [1 \<mapsto> 7]) = Returns afterU
   \<and> discoverModule (startOf (projectA symU) 4 [1 \<mapsto> 7]) 1 = [symU]
   \<and> creations (calls afterU) = [(1, 4)]
   \<and> resolveModule (Suc (Suc 0)) synthesis exampleTypedoc [1] 1
       (startOf (projectA symU) 4 Map.empty) = Raises afterRaise
   \<and> creations (calls afterRaise) = [(1, 4)]"
proof -
  have s: "nextId (startOf (projectA symU) 4 programs) = 4"
    "calls (startOf (projectA symU) 4 programs) = []" for programs
    by (simp_all add: startOf_def)
  show ?thesis
    using synthesis_run raising_run
      namespace_created_once [OF disjI1 [OF synthesis_run]]
      namespace_created_once [OF disjI2 [OF raising_run]]
    by (simp add: discover_projectA s)
qed

text \<open>
  C2 as stated fails.  The only missing symbol of module \<open>A\<close> is named \<open>default\<close> and
  is skipped, and still a namespace is created under the module (and removed at the
  end of the pass).  Likewise when the only missing symbol, named \<open>B.T\<close>, is aliased to
  the reflection that module \<open>B\<close> owns.
\<close>

theorem namespace_created_without_synthesis:
  "discoverModule (startOf (projectA symDefault) 4 [1 \<mapsto> 7]) 1 = [symDefault]
   \<and> symbolName symDefault = ''default''
   \<and> resolveModule (Suc 0) synthesis exampleTypedoc [1] 1
       (startOf (projectA symDefault) 4 [1 \<mapsto> 7]) = Returns afterDefault
   \<and> calls afterDefault = [CreateDeclarationReflection 1 4, RemoveReflection 4]
   \<and> discoverModule (startOf (projectAB symBT) 5 [1 \<mapsto> 7, 2 \<mapsto> 7]) 1 = [symBT]
   \<and> onResolveBegin (Suc 0) synthesis exampleTypedoc
       (startOf (projectAB symBT) 5 [1 \<mapsto> 7, 2 \<mapsto> 7]) = Returns afterAB
   \<and> calls afterAB = [RegisterReflection 2 4 symBT, CreateDeclarationReflection 1 5,
                      RemoveReflection 5]"
  using default_run firstRunAB
  by (simp add: discover_projectA discover_projectAB symDefault_def afterDefault_def
      afterAB_def)

text \<open>
  C3.  Let \<open>U\<close> be a finite set holding every symbol mentioned by the project tree and by
  whatever the converter creates.  For a module with missing symbols the loop is over
  within \<open>card U\<close> rounds, and so is the pass over the module: it returns or it raises,
  and it returns when a program is known for the module.  Every symbol processed is
  added to \<open>tried\<close> (\<open>processSymbol_tried\<close>); in the sequence of these additions no
  symbol occurs twice, so no symbol is processed again.
\<close>

theorem fixpoint_terminates:
  assumes "finite U"
    and "mentionedSymbols (project c) \<subseteq> U"
    and "\<forall>c' ns s. \<forall>d \<in> set (created (conversionOf lib c' ns s)). mentionedSymbols d \<subseteq> U"
    and "discoverModule c m \<noteq> []"
    and "card U \<le> n"
  shows "fixpoint n opts lib modules m (discoverModule c m)
             \<lparr>ctxt = c, internalContext = None, tried = []\<rparr> \<noteq> Unfinished
       \<and> resolveModule n opts lib modules m c \<noteq> Unfinished
       \<and> (\<forall>st. fixpoint n opts lib modules m (discoverModule c m)
                 \<lparr>ctxt = c, internalContext = None, tried = []\<rparr> = Returns st
              \<longrightarrow> distinct (tried st) \<and> set (tried st) \<subseteq> U
                  \<and> set (discoverModule c m) \<subseteq> set (tried st))
       \<and> (knownPrograms c m \<noteq> None
            \<longrightarrow> (\<exists>st. fixpoint n opts lib modules m (discoverModule c m)
                       \<lparr>ctxt = c, internalContext = None, tried = []\<rparr> = Returns st)
                \<and> (\<exists>c'. resolveModule n opts lib modules m c = Returns c'))"
proof -
  let ?init = "\<lparr>ctxt = c, internalContext = None, tried = []\<rparr>"
  let ?loop = "fixpoint n opts lib modules m (discoverModule c m) ?init"
  have rounds: "(\<exists>st'. ?loop = Returns st'
          \<and> distinct (tried st') \<and> set (tried st') \<subseteq> U
          \<and> set (tried ?init) \<union> set (discoverModule c m) \<subseteq> set (tried st'))
      \<or> (\<exists>c'. ?loop = Raises c')"
  proof (rule fixpoint_rounds [OF assms(1,3)])
    show "mentionedSymbols (project (ctxt ?init)) \<subseteq> U" using assms(2) by simp
    show "discoverModule c m \<noteq> []" by (rule assms(4))
    show "distinct (discoverModule c m)" by (rule discoverModule_distinct)
    show "set (discoverModule c m) \<subseteq> U"
      using discoverModule_mentioned [of c m] assms(2) by blast
    show "set (discoverModule c m) \<inter> set (tried ?init) = {}" by simp
    show "distinct (tried ?init)" by simp
    show "set (tried ?init) \<subseteq> U" by simp
    show "card (U - set (tried ?init)) \<le> n" using assms(5) by simp
  qed
  then have a: "?loop \<noteq> Unfinished" by auto
  have pass: "resolveModule n opts lib modules m c =
      andThen ?loop (\<lambda>st. andThen (createInternalContext opts lib m st)
          (\<lambda>(st, ns). Returns (finishPass m ns (ctxt st))))"
    by (rule resolveModule_unfold [OF assms(4)])
  have fin: "andThen (createInternalContext opts lib m st)
      (\<lambda>(st, ns). Returns (finishPass m ns (ctxt st))) \<noteq> Unfinished" for st
    using createInternalContext_finishes [of opts lib m st]
    by (cases "createInternalContext opts lib m st") auto
  have b: "resolveModule n opts lib modules m c \<noteq> Unfinished"
    unfolding pass using a fin by (cases ?loop) simp_all
  have t: "distinct (tried st) \<and> set (tried st) \<subseteq> U
      \<and> set (discoverModule c m) \<subseteq> set (tried st)" if "?loop = Returns st" for st
    using rounds that by auto
  have k: "(\<exists>st. ?loop = Returns st)
      \<and> (\<exists>c'. resolveModule n opts lib modules m c = Returns c')"
    if known: "knownPrograms c m \<noteq> None"
  proof -
    have "programKnown m ?init" using known by (simp add: programKnown_def)
    with programKnown_preserved
    have h: "holds (programKnown m) (\<lambda>c. False) ?loop"
      by (rule fixpoint_preserved)
    with rounds obtain st where r: "?loop = Returns st"
      using holds_no_raise [OF h] by blast
    with h have "programKnown m st" by simp
    then obtain st' ns where "createInternalContext opts lib m st = Returns (st', ns)"
      using createInternalContext_known [of st m opts lib] by (auto simp: programKnown_def)
    with r show ?thesis by (simp add: pass)
  qed
  from a b t k show ?thesis by blast
qed

theorem fixpoint_terminates_witness:
  "finite {symU, symV}
   \<and> mentionedSymbols (project (startOf (projectA symU) 4 [1 \<mapsto> 7])) \<subseteq> {symU, symV}
   \<and> discoverModule (startOf (projectA symU) 4 [1 \<mapsto> 7]) 1 = [symU]
   \<and> card {symU, symV} = 2
   \<and> knownPrograms (startOf (projectA symU) 4 [1 \<mapsto> 7]) 1 = Some 7
   \<and> (\<exists>st. fixpoint 2 synthesis exampleTypedoc [1] 1 [symU]
               \<lparr>ctxt = startOf (projectA symU) 4 [1 \<mapsto> 7], internalContext = None,
                tried = []\<rparr> = Returns st
            \<and> distinct (tried st) \<and> set (tried st) \<subseteq> {symU, symV} \<and> symU \<in> set (tried st))
   \<and> (\<exists>c'. resolveModule 2 synthesis exampleTypedoc [1] 1
              (startOf (projectA symU) 4 [1 \<mapsto> 7]) = Returns c')
   \<and> fixpoint 1 synthesis exampleTypedoc [1] 1 [symU]
        \<lparr>ctxt = startOf (projectA symU) 4 [1 \<mapsto> 7], internalContext = None, tried = []\<rparr>
       = Unfinished"
proof -
  let ?c = "startOf (projectA symU) 4 [1 \<mapsto> 7]"
  have f: "finite {symU, symV}" by simp
  have p: "mentionedSymbols (project ?c) \<subseteq> {symU, symV}"
    using mentioned_projectA [of symU] by (simp add: startOf_def)
  have d: "discoverModule ?c 1 \<noteq> []"
    by (simp add: discover_projectA)
  have k: "card {symU, symV} = 2" by (simp add: symU_def symV_def)
  then have n: "card {symU, symV} \<le> 2" by simp
  have kp: "knownPrograms ?c 1 = Some 7" by (simp add: startOf_def)
  have short: "fixpoint 1 synthesis exampleTypedoc [1] 1 [symU]
        \<lparr>ctxt = ?c, internalContext = None, tried = []\<rparr> = Unfinished"
    by (simp add: One_nat_def example_defs read_defs collect_defs driver_defs)
  show ?thesis
    using f p k kp short
      fixpoint_terminates [OF f p mentioned_exampleConversion d n, of synthesis "[1]"]
    by (auto simp: discover_projectA)
qed

text \<open>
  C4.  Let the pass over a module with missing symbols return, the id counter being
  ahead of the ids in the tree at its start.  The one creation of the pass is that of
  the namespace, and in the tree the pass returns every child of the module with the id
  of the namespace has children: an internal namespace without children has been
  removed.  In the examples the namespace that holds \<open>U\<close> and \<open>V\<close> is kept and the
  one made for the symbol named \<open>default\<close> is removed.  A pass that raises in
  \<open>createInternalContext\<close>, no program being known for the module, never reaches the
  removal and leaves the namespace it has just created (\<open>raising_run\<close>).
\<close>

theorem empty_namespace_removed:
  assumes "resolveModule n opts lib modules m c = Returns c'"
    and "discoverModule c m \<noteq> []"
    and "\<forall>r \<in> set (reachable (project c)). rid r < nextId c"
  shows "creations (calls c') = creations (calls c) @ [(m, nextId c)]
       \<and> (\<forall>r x. moduleOf (project c') m = Some r \<longrightarrow> x \<in> set (children r) \<longrightarrow>
             rid x = nextId c \<longrightarrow> children x \<noteq> [])"
proof -
  let ?init = "\<lparr>ctxt = c, internalContext = None, tried = []\<rparr>"
  have i: "namespaceUnique (creations (calls c)) m (nextId c) ?init"
    using fresh_countId [OF assms(3)]
    by (simp add: namespaceUnique_def namespaceState_def)
  note h = resolveModule_holds [OF namespaceUnique_preserved i assms(2),
      where n = n and modules = modules]
  from holds_Returns [OF h assms(1)] obtain st ns where
    u: "namespaceUnique (creations (calls c)) m (nextId c) st"
    and ic: "internalContext st = Some ns"
    and c': "c' = finishPass m ns (ctxt st)"
    by blast
  from u ic have ns: "ns = nextId c"
    and cr: "creations (calls (ctxt st)) = creations (calls c) @ [(m, nextId c)]"
    and one: "\<And>r. moduleOf (project (ctxt st)) m = Some r \<Longrightarrow> countId (nextId c) r \<le> 1"
    by (simp_all add: namespaceUnique_def namespaceState_def)
  have a: "creations (calls c') = creations (calls c) @ [(m, nextId c)]"
    using cr by (simp add: c' finishPass_def setActiveProgram_def removeReflection_def)
  have b: "children x \<noteq> []"
    if r: "moduleOf (project c') m = Some r" and x: "x \<in> set (children r)"
      and ix: "rid x = nextId c" for r x
  proof (cases "case namespaceOf (project (ctxt st)) m (nextId c) of
                  None \<Rightarrow> True | Some y \<Rightarrow> length (children y) = 0")
    case True
    then have "project c' = updateModule m (removeChild (nextId c)) (project (ctxt st))"
      by (simp add: c' ns finishPass_def setActiveProgram_def removeReflection_def)
    then have "namespaceOf (project c') m (nextId c) = None" by simp
    with r have "childById r (nextId c) = None" by (simp add: namespaceOf_def)
    with x ix show ?thesis by (simp add: childById_None)
  next
    case False
    then have p: "project c' = project (ctxt st)"
      by (simp add: c' ns finishPass_def setActiveProgram_def)
    from False obtain y where y: "namespaceOf (project (ctxt st)) m (nextId c) = Some y"
      and ch: "children y \<noteq> []"
      by (auto split: option.splits)
    from y r p have cy: "childById r (nextId c) = Some y" by (simp add: namespaceOf_def)
    from r p have "countId (nextId c) r \<le> 1" using one by simp
    from countId_unique [OF this cy x ix] ch show ?thesis by simp
  qed
  from a b show ?thesis by blast
qed

theorem empty_namespace_removed_witness:
  "resolveModule (Suc (Suc 0)) synthesis exampleTypedoc [1] 1
     (startOf (projectA symU) 4 [1 \<mapsto> 7]) = Returns afterU
   \<and> discoverModule (startOf (projectA symU) 4 [1 \<mapsto> 7]) 1 = [symU]
   \<and> map rid (reachable (projectA symU)) = [0, 1, 3]
   \<and> creations (calls afterU) = [(1, 4)]
   \<and> (\<exists>x. namespaceOf (project afterU) 1 4 = Some x \<and> map rid (children x) = [5, 6])
   \<and> resolveModule (Suc 0) synthesis exampleTypedoc [1] 1
       (startOf (projectA symDefault) 4 [1 \<mapsto> 7]) = Returns afterDefault
   \<and> discoverModule (startOf (projectA symDefault) 4 [1 \<mapsto> 7]) 1 = [symDefault]
   \<and> map rid (reachable (projectA symDefault)) = [0, 1, 3]
   \<and> calls afterDefault = [CreateDeclarationReflection 1 4, RemoveReflection 4]
   \<and> project afterDefault = projectA symDefault
   \<and> namespaceOf (project afterDefault) 1 4 = None"
proof -
  have d: "discoverModule (startOf (projectA s) 4 [1 \<mapsto> 7]) 1 \<noteq> []" for s
    by (simp add: discover_projectA)
  have r: "\<forall>r \<in> set (reachable (project (startOf (projectA s) 4 [1 \<mapsto> 7]))).
      rid r < nextId (startOf (projectA s) 4 [1 \<mapsto> 7])" for s
    using fresh_projectA [of s] by (simp add: startOf_def)
  have s: "nextId (startOf (projectA s) 4 programs) = 4"
    "calls (startOf (projectA s) 4 programs) = []" for s programs
    by (simp_all add: startOf_def)
  have kept: "\<exists>x. namespaceOf (project afterU) 1 4 = Some x \<and> map rid (children x) = [5, 6]"
    by (simp add: afterU_def plainDeclaration_def namespaceOf_def moduleOf_def childById_def)
  have gone: "namespaceOf (project afterDefault) 1 4 = None"
    "project afterDefault = projectA symDefault"
    "calls afterDefault = [CreateDeclarationReflection 1 4, RemoveReflection 4]"
    by (simp_all add: afterDefault_def projectA_def plainDeclaration_def namespaceOf_def
        moduleOf_def childById_def)
  show ?thesis
    using synthesis_run default_run kept gone
      empty_namespace_removed [OF synthesis_run d r]
      empty_namespace_removed [OF default_run d r]
    by (simp add: discover_projectA reachable_projectA s)
qed

text \<open>
  C7.  With \<open>noMissingExports\<close> set, the id counter ahead of the ids in the tree and a
  program known for the module, the pass over the module finishes in one round and
  leaves the project tree as it was: the namespace made after the loop has no children
  and is removed, so no internal namespace is in the final tree.  A missing symbol whose
  name the lookup does not find keeps its entry in the symbol table and stays
  unresolved.  Without a program for the module the creation after the loop raises and
  the empty namespace stays (\<open>raising_run_noSynthesis\<close>).
\<close>

theorem no_synthesis_leaves_unresolved:
  assumes "noMissingExports opts"
    and "\<forall>r \<in> set (reachable (project c)). rid r < nextId c"
    and "knownPrograms c m \<noteq> None"
  shows "\<exists>c'. resolveModule (Suc n) opts lib modules m c = Returns c'
           \<and> project c' = project c
           \<and> (\<forall>s \<in> set (discoverModule c m).
                 findReflectionByName lib (project c) (symbolName s) = None \<longrightarrow>
                 symbolToReflectionIdMap c' s = symbolToReflectionIdMap c s
                 \<and> \<not> resolved c' (TargetSymbol s))"
proof (cases "discoverModule c m = []")
  case True
  then show ?thesis by (simp add: resolveModule_def)
next
  case False
  let ?init = "\<lparr>ctxt = c, internalContext = None, tried = []\<rparr>"
  from fixpoint_noSynthesis [OF assms(1), of n lib modules m "discoverModule c m" ?init]
  obtain st where
    f: "fixpoint (Suc n) opts lib modules m (discoverModule c m) ?init = Returns st"
    and al: "aliasedOnly lib ?init st"
    by blast
  from al have p: "project (ctxt st) = project c" and i: "nextId (ctxt st) = nextId c"
    and kp: "knownPrograms (ctxt st) = knownPrograms c"
    and ic: "internalContext st = None"
    and sym: "\<And>y. findReflectionByName lib (project c) (symbolName y) = None \<Longrightarrow>
        symbolToReflectionIdMap (ctxt st) y = symbolToReflectionIdMap c y"
    by (simp_all add: aliasedOnly_def)
  from assms(3) kp have "knownPrograms (ctxt st) m \<noteq> None" by simp
  then obtain kp' where
    cr: "createInternalContext opts lib m st =
         Returns (st\<lparr>ctxt := (namespaceAdded opts lib m (ctxt st))\<lparr>knownPrograms := kp'\<rparr>,
                    internalContext := Some (nextId (ctxt st))\<rparr>, nextId (ctxt st))"
    using ic by (cases rule: createInternalContext_cases [of st opts lib m]) auto
  define c' where "c' = finishPass m (nextId c)
      ((namespaceAdded opts lib m (ctxt st))\<lparr>knownPrograms := kp'\<rparr>)"
  have run: "resolveModule (Suc n) opts lib modules m c = Returns c'"
    by (simp add: resolveModule_unfold [OF False] f cr i c'_def)
  have pc: "project c' = project c"
    using fresh_namespace_lookup [OF assms(2), of m opts lib]
      fresh_namespace_removed [OF assms(2), of m opts lib]
    by (simp add: c'_def finishPass_def namespaceAdded_def p i removeReflection_def
        setActiveProgram_def)
  have table: "symbolToReflectionIdMap c' = symbolToReflectionIdMap (ctxt st)"
    by (simp add: c'_def finishPass_def namespaceAdded_def removeReflection_def
        setActiveProgram_def)
  have "symbolToReflectionIdMap c' s = symbolToReflectionIdMap c s
      \<and> \<not> resolved c' (TargetSymbol s)"
    if s: "s \<in> set (discoverModule c m)"
      and n: "findReflectionByName lib (project c) (symbolName s) = None" for s
  proof -
    have e: "symbolToReflectionIdMap c' s = symbolToReflectionIdMap c s"
      using sym [OF n] by (simp add: table)
    from s obtain r where "moduleOf (project c) m = Some r"
      and "s \<in> set (discoverMissingExports (resolved c) r)"
      by (cases "moduleOf (project c) m") (auto simp: discoverModule_def)
    then have "s \<in> missingSymbols (resolved c) r"
      by (simp add: discoverMissingExports_set)
    then have u: "\<not> resolved c (TargetSymbol s)" by (auto simp: missingSymbols_def)
    have "resolved c' (TargetSymbol s) = resolved c (TargetSymbol s)"
      by (simp add: resolved_def typeReflection_def e pc cong: option.case_cong)
    with u e show ?thesis by simp
  qed
  with run pc show ?thesis by blast
qed

theorem no_synthesis_leaves_unresolved_witness:
  "noMissingExports noSynthesis
   \<and> map rid (reachable (project (startOf (projectA symU) 4 [1 \<mapsto> 7]))) = [0, 1, 3]
   \<and> nextId (startOf (projectA symU) 4 [1 \<mapsto> 7]) = 4
   \<and> knownPrograms (startOf (projectA symU) 4 [1 \<mapsto> 7]) 1 = Some 7
   \<and> discoverModule (startOf (projectA symU) 4 [1 \<mapsto> 7]) 1 = [symU]
   \<and> findReflectionByName exampleTypedoc (projectA symU) (symbolName symU) = None
   \<and> (\<exists>c'. resolveModule (Suc 0) noSynthesis exampleTypedoc [1] 1
              (startOf (projectA symU) 4 [1 \<mapsto> 7]) = Returns c'
            \<and> project c' = projectA symU \<and> \<not> resolved c' (TargetSymbol symU))"
proof -
  let ?c = "startOf (projectA symU) 4 [1 \<mapsto> 7]"
  have o: "noMissingExports noSynthesis" by (simp add: noSynthesis_def)
  have r: "\<forall>r \<in> set (reachable (project ?c)). rid r < nextId ?c"
    using fresh_projectA [of symU] by (simp add: startOf_def)
  have k: "knownPrograms ?c 1 \<noteq> None" by (simp add: startOf_def)
  have f: "findReflectionByName exampleTypedoc (projectA symU) (symbolName symU) = None"
    using findU [of symU] by (simp add: symU_def exampleTypedoc_def)
  have i: "map rid (reachable (project ?c)) = [0, 1, 3]" "nextId ?c = 4"
    "knownPrograms ?c 1 = Some 7"
    using reachable_projectA [of symU] by (simp_all add: startOf_def)
  have e: "project ?c = projectA symU"
    by (simp add: startOf_def)
  show ?thesis
    using o i f discover_projectA [of symU]
      no_synthesis_leaves_unresolved [OF o r k, of 0 exampleTypedoc "[1]"]
    by (auto simp: e discover_projectA)
qed

section \<open>Claims about the whole run\<close>

text \<open>
  C6.  On a project in which every reference to a symbol is resolved, the
  collector returns the empty set for every module and the driver returns the context as
  it was; \<open>knownPrograms\<close> is cleared.  The examples are the projects left by a first
  run of the driver, one in which a symbol has been aliased and one in which symbols
  have been synthesised.
\<close>

theorem resolved_project_untouched:
  assumes "fullyResolved c"
  shows "(\<forall>m \<in> set (modulesOf (project c)). discoverModule c m = [])
       \<and> onResolveBegin n opts lib c = Returns (c\<lparr>knownPrograms := Map.empty\<rparr>)"
proof -
  have e: "\<forall>m \<in> set (modulesOf (project c)). discoverModule c m = []"
    using assms by (simp add: fullyResolved_discoverModule)
  then have "forModules n opts lib (modulesOf (project c)) (modulesOf (project c)) c
      = Returns c"
    by (rule forModules_skip)
  with e show ?thesis by (simp add: onResolveBegin_def)
qed

theorem resolved_project_untouched_witness:
  "onResolveBegin (Suc 0) synthesis exampleTypedoc
     (startOf (projectAB symBT) 5 [1 \<mapsto> 7, 2 \<mapsto> 7]) = Returns afterAB
   \<and> fullyResolved afterAB
   \<and> discoverModule afterAB 1 = [] \<and> discoverModule afterAB 2 = []
   \<and> onResolveBegin (Suc 0) synthesis exampleTypedoc afterAB = Returns afterAB
   \<and> onResolveBegin (Suc (Suc 0)) synthesis exampleTypedoc
       (startOf (projectA symU) 4 [1 \<mapsto> 7]) = Returns (afterU\<lparr>knownPrograms := Map.empty\<rparr>)
   \<and> fullyResolved (afterU\<lparr>knownPrograms := Map.empty\<rparr>)
   \<and> discoverModule (afterU\<lparr>knownPrograms := Map.empty\<rparr>) 1 = []
   \<and> onResolveBegin (Suc (Suc 0)) synthesis exampleTypedoc (afterU\<lparr>knownPrograms := Map.empty\<rparr>)
       = Returns (afterU\<lparr>knownPrograms := Map.empty\<rparr>)"
proof -
  have e: "afterAB\<lparr>knownPrograms := Map.empty\<rparr> = afterAB"
    by (simp add: afterAB_def)
  show ?thesis
    using firstRunAB fullyResolved_afterAB firstRunA fullyResolved_afterU
      resolved_project_untouched [OF fullyResolved_afterAB, of "Suc 0" synthesis exampleTypedoc]
      resolved_project_untouched [OF fullyResolved_afterU, of "Suc (Suc 0)" synthesis
        exampleTypedoc]
    by (simp add: modules_afterAB modules_afterU e)
qed

section \<open>Claims about the collector\<close>

text \<open>
  C5.  The collector returns exactly the symbols that are the target of a reference
  type without resolved reflection, in a traversed field of a reflection reachable from
  the root; an inline-reflection type puts the wrapped declaration at the end of the
  queue and leaves the result as it is.
\<close>

theorem collector_exact:
  "set (discoverMissingExports isResolved root) = missingSymbols isResolved root
   \<and> visitor isResolved (ReflectionType d) (missing, queue) = (missing, queue @ [d])"
  by (simp add: discoverMissingExports_set)

text \<open>
  C10.  A reference type whose \<open>getSymbol()\<close> gives no symbol adds nothing to the
  result, resolved or not: the visitor goes on to its type arguments with the result
  as it was.  Every symbol reported for a tree is the symbol of an unresolved reference
  in a traversed field of a reachable reflection.
\<close>

theorem symbolless_reference_omitted:
  "(getSymbol tgt = None \<longrightarrow>
      visitor isResolved (ReferenceType tgt args) (missing, queue)
        = fold (visitor isResolved) args (missing, queue))
   \<and> (\<forall>s \<in> set (discoverMissingExports isResolved root).
        \<exists>r \<in> set (reachable root). \<exists>t \<in> set (traversedTypes r).
        \<exists>tgt \<in> set (referenceTargets t). getSymbol tgt = Some s \<and> \<not> isResolved tgt)"
proof -
  have "\<exists>r \<in> set (reachable root). \<exists>t \<in> set (traversedTypes r).
        \<exists>tgt \<in> set (referenceTargets t). getSymbol tgt = Some s \<and> \<not> isResolved tgt"
    if "s \<in> set (discoverMissingExports isResolved root)" for s
  proof -
    from that have "s \<in> missingSymbols isResolved root"
      by (simp add: discoverMissingExports_set)
    then obtain r t where "r \<in> set (reachable root)" "t \<in> set (traversedTypes r)"
      "TargetSymbol s \<in> set (referenceTargets t)" "\<not> isResolved (TargetSymbol s)"
      by (auto simp: missingSymbols_def)
    moreover have "getSymbol (TargetSymbol s) = Some s" by simp
    ultimately show ?thesis by blast
  qed
  then show ?thesis by simp
qed

theorem symbolless_reference_omitted_witness:
  "getSymbol (TargetId (- 1)) = None
   \<and> visitor (\<lambda>t. False) (ReferenceType (TargetId (- 1)) []) ([], []) = ([], [])
   \<and> discoverMissingExports (\<lambda>t. False) moduleBroken = [symT]
   \<and> (\<exists>r \<in> set (reachable moduleBroken). \<exists>t \<in> set (traversedTypes r).
        \<exists>tgt \<in> set (referenceTargets t). getSymbol tgt = Some symT)"
proof -
  have d: "discoverMissingExports (\<lambda>t. False) moduleBroken = [symT]"
    by (simp add: moduleBroken_def example_defs collect_defs)
  show ?thesis
    using symbolless_reference_omitted [of "TargetId (- 1)" "\<lambda>t. False" "[]" "[]" "[]" moduleBroken]
    by (simp add: d)
qed

end
